theory Spec2Isabelle
  imports Main
begin

section \<open>Packages\<close>

text \<open>
  Modelled from the spec: the declarations of \<open>pacman.Package\<close>, \<open>pacman.AnyPackage\<close> and the
  origin constants are not among the sources. The core only needs the capability set
  name, origin tag, required dependencies and build-time dependencies.
\<close>

datatype origin = UnknownOrigin | LocalOrigin | SyncOrigin | AUROrigin | DatabaseOrigin

record Package =
  Name :: string
  Origin :: origin
  Depends :: "string list"
  MakeDepends :: "string list"

section \<open>The graph (package graph, first unnamed source file)\<close>

text \<open>
  A node is its identifier together with the package it wraps. The source handles nodes
  through pointers; identifiers are handed out by one counter per graph, so within one
  graph a node value determines the pointer. The operations modelled here read a node's
  identifier and name and never compare two nodes; the two edge tests of the source,
  which compare pointers, are not modelled. Go's \<open>int\<close> identifiers are modelled as
  natural numbers (the counter only ever counts up from zero).
\<close>

record Node =
  ID :: nat
  AnyPackage :: Package

definition PkgName :: "Node \<Rightarrow> string" where
  "PkgName n = Name (AnyPackage n)"

definition PkgDepends :: "Node \<Rightarrow> string list" where
  "PkgDepends n = Depends (AnyPackage n)"

definition PkgMakeDepends :: "Node \<Rightarrow> string list" where
  "PkgMakeDepends n = MakeDepends (AnyPackage n)"

definition AllDepends :: "Node \<Rightarrow> string list" where
  "AllDepends n = PkgDepends n @ PkgMakeDepends n"

definition NumAllDepends :: "Node \<Rightarrow> nat" where
  "NumAllDepends n = length (PkgDepends n) + length (PkgMakeDepends n)"

record Edge =
  edge_from :: Node
  edge_to :: Node

record Graph =
  names :: "string \<rightharpoonup> Node"
  nodes :: "Node list"
  nodeIDs :: "nat \<rightharpoonup> Node"
  edgesFrom :: "nat \<rightharpoonup> Node list"
  edgesTo :: "nat \<rightharpoonup> Node list"
  edges :: "nat \<rightharpoonup> (nat \<rightharpoonup> Edge)"
  nextID :: nat

definition NewGraph :: Graph where
  "NewGraph = \<lparr>names = Map.empty, nodes = [], nodeIDs = Map.empty,
     edgesFrom = Map.empty, edgesTo = Map.empty, edges = Map.empty, nextID = 0\<rparr>"

definition Has :: "Graph \<Rightarrow> Node \<Rightarrow> bool" where
  "Has g n = (nodeIDs g (ID n) \<noteq> None)"

definition HasName :: "Graph \<Rightarrow> string \<Rightarrow> bool" where
  "HasName g name = (names g name \<noteq> None)"

text \<open>\<open>None\<close> is the nil pointer that a Go map lookup gives for a missing key.\<close>

definition NodeWithName :: "Graph \<Rightarrow> string \<Rightarrow> Node option" where
  "NodeWithName g name = names g name"

definition Nodes :: "Graph \<Rightarrow> Node list" where
  "Nodes g = nodes g"

text \<open>A missing key of a slice-valued Go map reads as the nil slice, of length zero.\<close>

definition From :: "Graph \<Rightarrow> Node \<Rightarrow> Node list" where
  "From g v = (case edgesFrom g (ID v) of None \<Rightarrow> [] | Some ns \<Rightarrow> ns)"

definition To :: "Graph \<Rightarrow> Node \<Rightarrow> Node list" where
  "To g v = (case edgesTo g (ID v) of None \<Rightarrow> [] | Some ns \<Rightarrow> ns)"

text \<open>Reading \<open>g.edges[u][v]\<close>: a missing inner map reads as nil, and so does a missing edge.\<close>

definition EdgeOf :: "Graph \<Rightarrow> Node \<Rightarrow> Node \<Rightarrow> Edge option" where
  "EdgeOf g u v = (case edges g (ID u) of None \<Rightarrow> None | Some m \<Rightarrow> m (ID v))"

definition NewNodeID :: "Graph \<Rightarrow> Graph \<times> nat" where
  "NewNodeID g = (g\<lparr>nextID := nextID g + 1\<rparr>, nextID g + 1)"

definition NewNode :: "Graph \<Rightarrow> Package \<Rightarrow> Graph \<times> Node" where
  "NewNode g pkg = (case NewNodeID g of (g', i) \<Rightarrow> (g', \<lparr>ID = i, AnyPackage = pkg\<rparr>))"

text \<open>
  The run-time faults of the graph operations. The mutating operations return the graph
  as it is after the call together with the fault, if any: a Go panic leaves the object as
  the statements before it made it.
\<close>

datatype panic = NameAlreadyInGraph | IdAlreadyHere | NilMapAssignment | NilNode

definition AddNode :: "Graph \<Rightarrow> Node \<Rightarrow> Graph \<times> panic option" where
  "AddNode g n =
     (if HasName g (PkgName n) then (g, Some NameAlreadyInGraph)
      else if Has g n then (g, Some IdAlreadyHere)
      else (g\<lparr>names := (names g)(PkgName n \<mapsto> n),
              nodes := nodes g @ [n],
              nodeIDs := (nodeIDs g)(ID n \<mapsto> n),
              edgesFrom := (edgesFrom g)(ID n \<mapsto> []),
              edgesTo := (edgesTo g)(ID n \<mapsto> []),
              edges := (edges g)(ID n \<mapsto> Map.empty)\<rparr>, None))"

text \<open>
  \<open>g.edges[uid][vid] = ...\<close> is the first statement: when \<open>uid\<close> has no inner map, the
  assignment to an entry of a nil map panics before anything is written. The two appends
  store \<open>u\<close> under \<open>edgesFrom[uid]\<close> and \<open>v\<close> under \<open>edgesTo[vid]\<close>, as the source does.
\<close>

definition AddEdgeFromTo :: "Graph \<Rightarrow> Node \<Rightarrow> Node \<Rightarrow> Graph \<times> panic option" where
  "AddEdgeFromTo g u v =
     (case edges g (ID u) of
        None \<Rightarrow> (g, Some NilMapAssignment)
      | Some m \<Rightarrow>
          (g\<lparr>edges := (edges g)(ID u \<mapsto> m(ID v \<mapsto> \<lparr>edge_from = u, edge_to = v\<rparr>)),
             edgesFrom := (edgesFrom g)(ID u \<mapsto> From g u @ [u]),
             edgesTo := (edgesTo g)(ID v \<mapsto> To g v @ [v])\<rparr>, None))"

section \<open>The factory (factory.go)\<close>

text \<open>The option field \<open>truncate\<close> is called \<open>truncate_opt\<close> here.\<close>

record Factory =
  local :: "string \<rightharpoonup> Package"
  sync :: "string \<rightharpoonup> Package"
  skipInstalled :: bool
  truncate_opt :: bool
  noUnknown :: bool
  depFunc :: "Package \<Rightarrow> string list"
  aurCalls :: nat

text \<open>The dependency function that \<open>NewFactory\<close> installs: install and make dependencies.\<close>

definition defaultDepFunc :: "Package \<Rightarrow> string list" where
  "defaultDepFunc p = Depends p @ MakeDepends p"

definition SetSkipInstalled :: "Factory \<Rightarrow> bool \<Rightarrow> Factory" where
  "SetSkipInstalled f yes = f\<lparr>skipInstalled := yes\<rparr>"

definition SetTruncate :: "Factory \<Rightarrow> bool \<Rightarrow> Factory" where
  "SetTruncate f yes = f\<lparr>truncate_opt := yes\<rparr>"

definition SetNoUnknown :: "Factory \<Rightarrow> bool \<Rightarrow> Factory" where
  "SetNoUnknown f yes = f\<lparr>noUnknown := yes\<rparr>"

definition SetDependencyFunc :: "Factory \<Rightarrow> (Package \<Rightarrow> string list) \<Rightarrow> Factory" where
  "SetDependencyFunc f fn = f\<lparr>depFunc := fn\<rparr>"

definition NumRequestsAUR :: "Factory \<Rightarrow> nat" where
  "NumRequestsAUR f = aurCalls f"

text \<open>
  Modelled from the spec: the remote source (\<open>aur.ReadAll\<close>, \<open>aur.IsNotFound\<close>,
  \<open>aur.NotFoundError\<close>) is not among the sources. A lookup answers with the packages it
  resolved and possibly an error; a "not found" error carries the missing names and is
  distinguishable from every other error. The remote source is a parameter of the model:
  its answer may depend on the names asked for and on how many lookups the factory has
  made before (the network may answer differently each time). The source collects the
  names by ranging over a map, in an order that Go leaves open; the model hands the names
  over in the order they were first stored, and the parameter stands for that ranging
  and the lookup together.
\<close>

datatype aur_error = NotFoundError "string list" | OtherError string

fun IsNotFound :: "aur_error \<Rightarrow> bool" where
  "IsNotFound (NotFoundError ns) = True"
| "IsNotFound (OtherError m) = False"

type_synonym remote = "nat \<Rightarrow> string list \<Rightarrow> Package list \<times> aur_error option"

datatype failure = Panicked panic | RemoteError aur_error

text \<open>
  The variables of one pass of the loop body: the graph, the list \<open>new\<close>, the set
  \<open>unavailable\<close> and the map \<open>pending\<close>. The set is kept as the list of its keys in the
  order they were first stored (Go leaves the iteration order of a map open); a missing
  key of \<open>pending\<close> reads as the nil slice.
\<close>

record layer_state =
  graph :: Graph
  new :: "Node list"
  unavailable :: "string list"
  pending :: "string \<Rightarrow> Node list"

definition mark :: "string list \<Rightarrow> string \<Rightarrow> string list" where
  "mark ks d = (if d \<in> set ks then ks else ks @ [d])"

text \<open>The body of the inner loop (lines 143 to 170), for node \<open>v\<close> and dependency name \<open>d\<close>.\<close>

definition scanDep :: "Factory \<Rightarrow> Node \<Rightarrow> string \<Rightarrow> layer_state \<Rightarrow> panic + layer_state" where
  "scanDep f v d s =
     (if HasName (graph s) d then
        (case NodeWithName (graph s) d of
           None \<Rightarrow> Inl NilNode
         | Some u \<Rightarrow>
            (case AddEdgeFromTo (graph s) v u of
               (g', Some p) \<Rightarrow> Inl p
             | (g', None) \<Rightarrow> Inr (s\<lparr>graph := g'\<rparr>)))
      else if skipInstalled f \<and> local f d \<noteq> None then Inr s
      else
        (case sync f d of
           Some p \<Rightarrow>
             (case NewNode (graph s) p of
                (g1, u) \<Rightarrow>
                  (case AddEdgeFromTo g1 v u of
                     (g', Some pn) \<Rightarrow> Inl pn
                   | (g', None) \<Rightarrow>
                       Inr (s\<lparr>graph := g',
                              new := (if \<not> truncate_opt f then new s @ [u] else new s)\<rparr>)))
         | None \<Rightarrow>
             Inr (s\<lparr>unavailable := mark (unavailable s) d,
                    pending := (pending s)(d := pending s d @ [v])\<rparr>)))"

fun scanDeps :: "Factory \<Rightarrow> Node \<Rightarrow> string list \<Rightarrow> layer_state \<Rightarrow> panic + layer_state" where
  "scanDeps f v [] s = Inr s"
| "scanDeps f v (d # ds) s =
     (case scanDep f v d s of Inl p \<Rightarrow> Inl p | Inr s' \<Rightarrow> scanDeps f v ds s')"

fun scanFrontier :: "Factory \<Rightarrow> Node list \<Rightarrow> layer_state \<Rightarrow> panic + layer_state" where
  "scanFrontier f [] s = Inr s"
| "scanFrontier f (v # vs) s =
     (case scanDeps f v (depFunc f (AnyPackage v)) s of
        Inl p \<Rightarrow> Inl p
      | Inr s' \<Rightarrow> scanFrontier f vs s')"

text \<open>The loop of \<open>addFetchedPkg\<close> over \<open>pending[u.PkgName()]\<close>.\<close>

fun connectPending :: "Graph \<Rightarrow> Node list \<Rightarrow> Node \<Rightarrow> panic + Graph" where
  "connectPending g [] u = Inr g"
| "connectPending g (v # vs) u =
     (case AddEdgeFromTo g v u of
        (g', Some p) \<Rightarrow> Inl p
      | (g', None) \<Rightarrow> connectPending g' vs u)"

definition addFetchedPkg :: "layer_state \<Rightarrow> Package \<Rightarrow> panic + layer_state" where
  "addFetchedPkg s p =
     (case NewNode (graph s) p of
        (g1, u) \<Rightarrow>
          (case AddNode g1 u of
             (g2, Some pn) \<Rightarrow> Inl pn
           | (g2, None) \<Rightarrow>
               (case connectPending g2 (pending s (PkgName u)) u of
                  Inl pn \<Rightarrow> Inl pn
                | Inr g3 \<Rightarrow> Inr (s\<lparr>graph := g3, new := new s @ [u]\<rparr>))))"

fun addFetchedPkgs :: "layer_state \<Rightarrow> Package list \<Rightarrow> panic + layer_state" where
  "addFetchedPkgs s [] = Inr s"
| "addFetchedPkgs s (p # ps) =
     (case addFetchedPkg s p of Inl pn \<Rightarrow> Inl pn | Inr s' \<Rightarrow> addFetchedPkgs s' ps)"

text \<open>The placeholder of lines 198 to 203.\<close>

definition unknownPkg :: "string \<Rightarrow> Package" where
  "unknownPkg p = \<lparr>Name = p, Origin = UnknownOrigin, Depends = [], MakeDepends = []\<rparr>"

text \<open>
  Lines 185 to 188: the slice is made with length \<open>len(unavailable)\<close>, so it starts with
  that many empty strings, and the keys are appended behind them.
\<close>

definition fromAUR :: "string list \<Rightarrow> string list" where
  "fromAUR unav = replicate (length unav) [] @ unav"

text \<open>
  Lines 194 to 211: what happens with the answer of the remote source. The type
  assertion of line 197 is made only after \<open>IsNotFound\<close> has held, so the case of another
  error under it is never taken. A panic in any step ends the pass, and with it \<open>NewGraph\<close>.
\<close>

definition addFetched :: "Factory \<Rightarrow> layer_state \<Rightarrow> Package list \<times> aur_error option \<Rightarrow>
    failure + layer_state" where
  "addFetched f s answer =
     (case answer of
        (pkgs, None) \<Rightarrow>
          (case addFetchedPkgs s pkgs of Inl pn \<Rightarrow> Inl (Panicked pn) | Inr s2 \<Rightarrow> Inr s2)
      | (pkgs, Some err) \<Rightarrow>
          (if \<not> noUnknown f \<and> IsNotFound err then
             (case err of
                NotFoundError ns \<Rightarrow>
                  (case addFetchedPkgs s (map unknownPkg ns) of
                     Inl pn \<Rightarrow> Inl (Panicked pn)
                   | Inr s1 \<Rightarrow>
                       (case addFetchedPkgs s1 pkgs of
                          Inl pn \<Rightarrow> Inl (Panicked pn)
                        | Inr s2 \<Rightarrow> Inr s2))
              | OtherError m \<Rightarrow> Inl (RemoteError err))
           else Inl (RemoteError err)))"

definition initLayer :: "Graph \<Rightarrow> layer_state" where
  "initLayer g = \<lparr>graph = g, new = [], unavailable = [], pending = (\<lambda>d. [])\<rparr>"

text \<open>
  One pass of the loop body (lines 136 to 213) on graph \<open>g\<close> and frontier \<open>lst\<close>: the scan,
  the one remote lookup (counted before it is made), and the answer's packages. The
  result is the factory with its counter, and either the failure that ends \<open>NewGraph\<close> or
  the graph with the next frontier.
\<close>

definition layer :: "remote \<Rightarrow> Factory \<Rightarrow> Graph \<Rightarrow> Node list \<Rightarrow>
    Factory \<times> (failure + Graph \<times> Node list)" where
  "layer aur f g lst =
     (case scanFrontier f lst (initLayer g) of
        Inl pn \<Rightarrow> (f, Inl (Panicked pn))
      | Inr s \<Rightarrow>
          (case addFetched f s (aur (aurCalls f) (fromAUR (unavailable s))) of
             Inl e \<Rightarrow> (f\<lparr>aurCalls := aurCalls f + 1\<rparr>, Inl e)
           | Inr s2 \<Rightarrow> (f\<lparr>aurCalls := aurCalls f + 1\<rparr>, Inr (graph s2, new s2))))"

text \<open>
  The loop of line 135, \<open>for len(lst) == 0\<close>: the body runs while the frontier is empty.
  The loop need not end, so the function is partial: \<open>None\<close> is a run that never returns.
\<close>

partial_function (option) NewGraph_loop :: "remote \<Rightarrow> Factory \<Rightarrow> Graph \<Rightarrow> Node list \<Rightarrow>
    (Factory \<times> (failure + Graph)) option" where
  "NewGraph_loop aur f g lst =
     (if length lst = 0 then
        (case layer aur f g lst of
           (f', Inl e) \<Rightarrow> Some (f', Inl e)
         | (f', Inr (g', new')) \<Rightarrow> NewGraph_loop aur f' g' new')
      else Some (f, Inr g))"

declare NewGraph_loop.simps [code]

text \<open>Lines 127 to 132: one node per given package, made, remembered and added.\<close>

fun seedNodes :: "Graph \<Rightarrow> Node list \<Rightarrow> Package list \<Rightarrow> panic + Graph \<times> Node list" where
  "seedNodes g lst [] = Inr (g, lst)"
| "seedNodes g lst (p # ps) =
     (case NewNode g p of
        (g1, v) \<Rightarrow>
          (case AddNode g1 v of
             (g2, Some pn) \<Rightarrow> Inl pn
           | (g2, None) \<Rightarrow> seedNodes g2 (lst @ [v]) ps))"

text \<open>
  The method \<open>NewGraph\<close> of the factory: the result is \<open>None\<close> when the call never returns,
  and otherwise the factory (with its counter) and either a failure, with no graph, or the
  graph.
\<close>

definition Factory_NewGraph :: "remote \<Rightarrow> Factory \<Rightarrow> Package list \<Rightarrow>
    (Factory \<times> (failure + Graph)) option" where
  "Factory_NewGraph aur f pkgs =
     (case seedNodes NewGraph [] pkgs of
        Inl pn \<Rightarrow> Some (f, Inl (Panicked pn))
      | Inr (g, lst) \<Rightarrow> NewGraph_loop aur f g lst)"

section \<open>Notions used in the statements\<close>

text \<open>A sequence of \<open>AddNode\<close> calls on one graph, whether or not a call faults.\<close>

fun AddNodes :: "Graph \<Rightarrow> Node list \<Rightarrow> Graph" where
  "AddNodes g [] = g"
| "AddNodes g (v # vs) = AddNodes (fst (AddNode g v)) vs"

text \<open>
  The graphs that the mutating operations produce from the empty graph, whatever their
  arguments are.
\<close>

inductive reachable :: "Graph \<Rightarrow> bool" where
  reachable_NewGraph: "reachable NewGraph"
| reachable_NewNode: "reachable g \<Longrightarrow> reachable (fst (NewNode g p))"
| reachable_AddNode: "reachable g \<Longrightarrow> reachable (fst (AddNode g v))"
| reachable_AddEdgeFromTo: "reachable g \<Longrightarrow> reachable (fst (AddEdgeFromTo g u v))"

text \<open>
  The graphs that the operations produce when every edge is added between two nodes
  that have been added before, which is what \<open>AddEdgeFromTo\<close> expects of its caller.
\<close>

inductive built :: "Graph \<Rightarrow> bool" where
  built_NewGraph: "built NewGraph"
| built_NewNode: "built g \<Longrightarrow> built (fst (NewNode g p))"
| built_AddNode: "built g \<Longrightarrow> built (fst (AddNode g v))"
| built_AddEdgeFromTo: "built g \<Longrightarrow> Has g u \<Longrightarrow> Has g v \<Longrightarrow> built (fst (AddEdgeFromTo g u v))"

text \<open>
  The two indexes of a graph agree with its node list: a name or an identifier is known
  exactly when a listed node carries it, no two listed nodes share a name or an
  identifier, and exactly the listed identifiers have an inner edge map.
\<close>

definition graph_inv :: "Graph \<Rightarrow> bool" where
  "graph_inv g \<longleftrightarrow>
     (\<forall>n. HasName g n \<longleftrightarrow> n \<in> PkgName ` set (nodes g)) \<and>
     (\<forall>n v. names g n = Some v \<longrightarrow> v \<in> set (nodes g) \<and> PkgName v = n) \<and>
     distinct (map PkgName (nodes g)) \<and>
     (\<forall>i. nodeIDs g i \<noteq> None \<longleftrightarrow> i \<in> ID ` set (nodes g)) \<and>
     (\<forall>i v. nodeIDs g i = Some v \<longrightarrow> v \<in> set (nodes g) \<and> ID v = i) \<and>
     distinct (map ID (nodes g)) \<and>
     dom (edges g) = dom (nodeIDs g)"

text \<open>Two graphs with the same nodes and indexes, and inner edge maps for the same nodes.\<close>

definition same_index :: "Graph \<Rightarrow> Graph \<Rightarrow> bool" where
  "same_index g g' \<longleftrightarrow>
     names g' = names g \<and> nodes g' = nodes g \<and> nodeIDs g' = nodeIDs g \<and>
     dom (edges g') = dom (edges g)"

text \<open>Only added nodes have adjacency lists.\<close>

definition adj_inv :: "Graph \<Rightarrow> bool" where
  "adj_inv g \<longleftrightarrow> dom (edgesFrom g) \<subseteq> dom (nodeIDs g) \<and> dom (edgesTo g) \<subseteq> dom (nodeIDs g)"

text \<open>
  The list \<open>new\<close> of a layer holds nodes with different identifiers, none above the
  graph's counter.
\<close>

definition fresh_new :: "layer_state \<Rightarrow> bool" where
  "fresh_new s \<longleftrightarrow>
     distinct (map ID (new s)) \<and> list_all (\<lambda>v. ID v \<le> nextID (graph s)) (new s)"

text \<open>A graph whose edge map holds no edge.\<close>

definition no_edges :: "Graph \<Rightarrow> bool" where
  "no_edges g \<longleftrightarrow> (\<forall>i j. case edges g i of None \<Rightarrow> True | Some m \<Rightarrow> m j = None)"

text \<open>
  A dependency name that the scan of a layer can resolve by no local means: it falls
  through the three tests of lines 143 to 164.
\<close>

definition unresolved :: "Factory \<Rightarrow> Graph \<Rightarrow> string \<Rightarrow> bool" where
  "unresolved f g d \<longleftrightarrow>
     \<not> HasName g d \<and> \<not> (skipInstalled f \<and> local f d \<noteq> None) \<and> sync f d = None"

text \<open>
  In the variables of a layer, name \<open>d\<close> belongs to node \<open>u\<close>, which is in the list \<open>new\<close> and
  has an edge in the edge map from every node of \<open>W\<close>.
\<close>

definition linked :: "layer_state \<Rightarrow> string \<Rightarrow> Node \<Rightarrow> Node set \<Rightarrow> bool" where
  "linked s d u W \<longleftrightarrow>
     names (graph s) d = Some u \<and> u \<in> set (new s) \<and>
     (\<forall>w\<in>W. EdgeOf (graph s) w u = Some \<lparr>edge_from = w, edge_to = u\<rparr>)"

text \<open>The argument of the remote lookup that a layer makes, when its scan does not fault.\<close>

definition request :: "Factory \<Rightarrow> Graph \<Rightarrow> Node list \<Rightarrow> string list" where
  "request f g lst =
     (case scanFrontier f lst (initLayer g) of
        Inl pn \<Rightarrow> []
      | Inr s \<Rightarrow> fromAUR (unavailable s))"

section \<open>Example data\<close>

definition ex_pkgA :: Package where
  "ex_pkgA = \<lparr>Name = ''a'', Origin = AUROrigin, Depends = [''b''], MakeDepends = []\<rparr>"

definition ex_pkgB :: Package where
  "ex_pkgB = \<lparr>Name = ''b'', Origin = AUROrigin, Depends = [''a''], MakeDepends = []\<rparr>"

definition ex_a :: Node where
  "ex_a = \<lparr>ID = 1, AnyPackage = ex_pkgA\<rparr>"

definition ex_b :: Node where
  "ex_b = \<lparr>ID = 2, AnyPackage = ex_pkgB\<rparr>"

text \<open>The graph holding only node \<open>a\<close>, and the graph holding \<open>a\<close> and \<open>b\<close>, both without edges.\<close>

definition ex_graphA :: Graph where
  "ex_graphA = fst (AddNode (fst (NewNode NewGraph ex_pkgA)) ex_a)"

definition ex_graph :: Graph where
  "ex_graph = fst (AddNode (fst (NewNode ex_graphA ex_pkgB)) ex_b)"

text \<open>A factory as \<open>NewFactory\<close> leaves it, with nothing installed and no repository.\<close>

definition ex_factory :: Factory where
  "ex_factory = \<lparr>local = Map.empty, sync = Map.empty, skipInstalled = False,
     truncate_opt = False, noUnknown = False, depFunc = defaultDepFunc, aurCalls = 0\<rparr>"

text \<open>The same factory when package \<open>b\<close> is available in a repository.\<close>

definition ex_factory_sync :: Factory where
  "ex_factory_sync = ex_factory\<lparr>sync := [''b'' \<mapsto> ex_pkgB]\<rparr>"

text \<open>A remote source that resolves nothing and reports no error.\<close>

definition ex_quiet :: remote where
  "ex_quiet n req = ([], None)"

text \<open>A remote source that reports every non-empty name it is asked for as not found.\<close>

definition ex_nowhere :: remote where
  "ex_nowhere n req = ([], Some (NotFoundError (filter (\<lambda>x. x \<noteq> []) req)))"

text \<open>A remote source that is out of reach.\<close>

definition ex_offline :: remote where
  "ex_offline n req = ([], Some (OtherError ''connection refused''))"

text \<open>A third package, and nodes that reuse the name or the identifier of node \<open>a\<close>.\<close>

definition ex_pkgC :: Package where
  "ex_pkgC = \<lparr>Name = ''c'', Origin = AUROrigin, Depends = [], MakeDepends = []\<rparr>"

definition ex_c :: Node where
  "ex_c = \<lparr>ID = 3, AnyPackage = ex_pkgC\<rparr>"

definition ex_same_name :: Node where
  "ex_same_name = \<lparr>ID = 3, AnyPackage = ex_pkgA\<rparr>"

definition ex_same_id :: Node where
  "ex_same_id = \<lparr>ID = 1, AnyPackage = ex_pkgC\<rparr>"

text \<open>
  One pass of the loop body on the graph holding \<open>a\<close>, with frontier \<open>a\<close>, whose dependency
  \<open>b\<close> is nowhere: the placeholder for \<open>b\<close>, the result of the pass and its graph.
\<close>

definition ex_ghost :: Node where
  "ex_ghost = \<lparr>ID = 2, AnyPackage = unknownPkg ''b''\<rparr>"

definition ex_ghost_layer :: "Factory \<times> (failure + Graph \<times> Node list)" where
  "ex_ghost_layer = layer ex_nowhere ex_factory ex_graphA [ex_a]"

definition ex_ghost_graph :: Graph where
  "ex_ghost_graph = fst (projr (snd ex_ghost_layer))"

text \<open>The same pass when \<open>b\<close> is available in a repository.\<close>

definition ex_sync_layer :: "Factory \<times> (failure + Graph \<times> Node list)" where
  "ex_sync_layer = layer ex_quiet ex_factory_sync ex_graphA [ex_a]"

definition ex_sync_graph :: Graph where
  "ex_sync_graph = fst (projr (snd ex_sync_layer))"

section \<open>Properties of the graph\<close>

lemmas ex_defs = ex_pkgA_def ex_pkgB_def ex_pkgC_def ex_a_def ex_b_def ex_c_def
  ex_same_name_def ex_same_id_def ex_graphA_def ex_graph_def ex_factory_def ex_factory_sync_def

lemmas graph_defs = NewGraph_def NewNode_def NewNodeID_def AddNode_def AddEdgeFromTo_def
  Has_def HasName_def NodeWithName_def From_def To_def EdgeOf_def PkgName_def Nodes_def

subsection \<open>The invariants hold of every graph the operations produce\<close>

lemma graph_inv_NewGraph: "graph_inv NewGraph"
  by (simp add: graph_inv_def graph_defs)

lemma graph_inv_NewNode: "graph_inv g \<Longrightarrow> graph_inv (fst (NewNode g p))"
  by (simp add: graph_inv_def graph_defs)

lemma graph_inv_AddNode: "graph_inv g \<Longrightarrow> graph_inv (fst (AddNode g v))"
  unfolding graph_inv_def AddNode_def Has_def HasName_def
  by (auto simp: image_iff)

lemma graph_inv_AddEdgeFromTo: "graph_inv g \<Longrightarrow> graph_inv (fst (AddEdgeFromTo g u v))"
  unfolding graph_inv_def AddEdgeFromTo_def Has_def HasName_def
  by (auto split: option.splits)

lemma reachable_graph_inv: "reachable g \<Longrightarrow> graph_inv g"
  by (induction rule: reachable.induct)
    (simp_all add: graph_inv_NewGraph graph_inv_NewNode graph_inv_AddNode
      graph_inv_AddEdgeFromTo)

lemma built_reachable: "built g \<Longrightarrow> reachable g"
  by (induction rule: built.induct) (auto intro: reachable.intros)

lemma adj_inv_NewGraph: "adj_inv NewGraph"
  by (simp add: adj_inv_def graph_defs)

lemma adj_inv_NewNode: "adj_inv g \<Longrightarrow> adj_inv (fst (NewNode g p))"
  by (simp add: adj_inv_def graph_defs)

lemma adj_inv_AddNode: "adj_inv g \<Longrightarrow> adj_inv (fst (AddNode g v))"
  unfolding adj_inv_def AddNode_def
  by auto

lemma adj_inv_AddEdgeFromTo:
  "adj_inv g \<Longrightarrow> Has g u \<Longrightarrow> Has g v \<Longrightarrow> adj_inv (fst (AddEdgeFromTo g u v))"
  unfolding adj_inv_def AddEdgeFromTo_def Has_def
  by (auto split: option.splits)

lemma built_adj_inv: "built g \<Longrightarrow> adj_inv g"
  by (induction rule: built.induct)
    (simp_all add: adj_inv_NewGraph adj_inv_NewNode adj_inv_AddNode adj_inv_AddEdgeFromTo)

lemma graph_inv_AddNodes: "graph_inv g \<Longrightarrow> graph_inv (AddNodes g vs)"
  by (induction vs arbitrary: g) (simp_all add: graph_inv_AddNode)

lemma graph_inv_bucket: "graph_inv g \<Longrightarrow> Has g u \<Longrightarrow> edges g (ID u) \<noteq> None"
  unfolding graph_inv_def Has_def by (metis domIff)

lemma reachable_ex_graphA: "reachable ex_graphA"
  unfolding ex_graphA_def by (intro reachable.intros)

lemma reachable_ex_graph: "reachable ex_graph"
  unfolding ex_graph_def ex_graphA_def by (intro reachable.intros)

lemma built_ex_graph: "built ex_graph"
  unfolding ex_graph_def ex_graphA_def by (intro built.intros)

lemma Has_ex_graph: "Has ex_graph ex_a" "Has ex_graph ex_b"
  by (simp_all add: ex_defs graph_defs)

lemma AddEdgeFromTo_ok:
  assumes "edges g (ID u) = Some m"
  shows "AddEdgeFromTo g u v =
    (g\<lparr>edges := (edges g)(ID u \<mapsto> m(ID v \<mapsto> \<lparr>edge_from = u, edge_to = v\<rparr>)),
       edgesFrom := (edgesFrom g)(ID u \<mapsto> From g u @ [u]),
       edgesTo := (edgesTo g)(ID v \<mapsto> To g v @ [v])\<rparr>, None)"
  using assms by (simp add: AddEdgeFromTo_def)

lemma reachable_From_inv: "reachable g \<Longrightarrow> dom (edgesFrom g) \<subseteq> dom (nodeIDs g)"
proof (induction rule: reachable.induct)
  case reachable_NewGraph
  then show ?case by (simp add: NewGraph_def)
next
  case (reachable_NewNode g p)
  then show ?case by (simp add: NewNode_def NewNodeID_def)
next
  case (reachable_AddNode g v)
  then show ?case by (auto simp: AddNode_def)
next
  case (reachable_AddEdgeFromTo g u v)
  have "dom (edges g) = dom (nodeIDs g)"
    using reachable_graph_inv [OF reachable_AddEdgeFromTo.hyps] by (simp add: graph_inv_def)
  with reachable_AddEdgeFromTo.IH show ?case
    by (auto simp: AddEdgeFromTo_def dom_def set_eq_iff subset_iff
        split: option.splits if_splits)
qed

lemma reachable_not_added: "reachable (fst (NewNode ex_graphA ex_pkgB))"
  by (intro reachable_NewNode reachable_ex_graphA)

subsection \<open>Adjacency after adding an edge\<close>

text \<open>
  Claim C2: after \<open>AddEdgeFromTo(u, v)\<close> on added nodes, \<open>From(u)\<close> contains \<open>v\<close> and
  \<open>To(v)\<close> contains \<open>u\<close>. The code appends \<open>u\<close> to \<open>edgesFrom[uid]\<close> and \<open>v\<close> to
  \<open>edgesTo[vid]\<close>: on the graph holding \<open>a\<close> and \<open>b\<close>, adding the edge from \<open>a\<close> to \<open>b\<close> makes
  \<open>From(a)\<close> the list holding \<open>a\<close> itself and \<open>To(b)\<close> the list holding \<open>b\<close> itself, so neither
  holds the other endpoint.
\<close>

theorem AddEdgeFromTo_stores_own_endpoint:
  "snd (AddEdgeFromTo ex_graph ex_a ex_b) = None \<and>
   From (fst (AddEdgeFromTo ex_graph ex_a ex_b)) ex_a = [ex_a] \<and>
   To (fst (AddEdgeFromTo ex_graph ex_a ex_b)) ex_b = [ex_b] \<and>
   ex_b \<notin> set (From (fst (AddEdgeFromTo ex_graph ex_a ex_b)) ex_a) \<and>
   ex_a \<notin> set (To (fst (AddEdgeFromTo ex_graph ex_a ex_b)) ex_b)"
  by (simp add: ex_defs graph_defs)

subsection \<open>Adding the same edge twice\<close>

text \<open>
  Claim C6, as stated: adding the same ordered pair twice leaves one edge, and \<open>From\<close> and
  \<open>To\<close> get no second entry for the pair. The second part fails: on the graph holding \<open>a\<close>
  and \<open>b\<close>, the second call changes \<open>From(a)\<close>, and afterwards neither \<open>From(a)\<close> nor \<open>To(b)\<close>
  is free of duplicates.
\<close>

theorem AddEdgeFromTo_twice_duplicates:
  "From (fst (AddEdgeFromTo (fst (AddEdgeFromTo ex_graph ex_a ex_b)) ex_a ex_b)) ex_a
     \<noteq> From (fst (AddEdgeFromTo ex_graph ex_a ex_b)) ex_a \<and>
   \<not> distinct (From (fst (AddEdgeFromTo (fst (AddEdgeFromTo ex_graph ex_a ex_b)) ex_a ex_b)) ex_a) \<and>
   \<not> distinct (To (fst (AddEdgeFromTo (fst (AddEdgeFromTo ex_graph ex_a ex_b)) ex_a ex_b)) ex_b)"
  by (simp add: ex_defs graph_defs)

text \<open>
  Claim C6, amended: when \<open>u\<close> has been added, neither of two calls \<open>AddEdgeFromTo(u, v)\<close>
  faults, the second call leaves the edge map as the first call made it, with the one
  edge from \<open>u\<close> to \<open>v\<close> under the ordered pair, and the adjacency lists are not
  deduplicated: each call makes \<open>From(u)\<close> and \<open>To(v)\<close> one entry longer and keeps the
  entries that were there, in their order.
\<close>

theorem AddEdgeFromTo_twice:
  assumes "reachable g" and "Has g u"
  shows "snd (AddEdgeFromTo g u v) = None \<and>
     snd (AddEdgeFromTo (fst (AddEdgeFromTo g u v)) u v) = None \<and>
     edges (fst (AddEdgeFromTo (fst (AddEdgeFromTo g u v)) u v))
       = edges (fst (AddEdgeFromTo g u v)) \<and>
     EdgeOf (fst (AddEdgeFromTo (fst (AddEdgeFromTo g u v)) u v)) u v
       = Some \<lparr>edge_from = u, edge_to = v\<rparr> \<and>
     length (From (fst (AddEdgeFromTo g u v)) u) = length (From g u) + 1 \<and>
     length (To (fst (AddEdgeFromTo g u v)) v) = length (To g v) + 1 \<and>
     length (From (fst (AddEdgeFromTo (fst (AddEdgeFromTo g u v)) u v)) u)
       = length (From g u) + 2 \<and>
     length (To (fst (AddEdgeFromTo (fst (AddEdgeFromTo g u v)) u v)) v)
       = length (To g v) + 2 \<and>
     take (length (From g u)) (From (fst (AddEdgeFromTo (fst (AddEdgeFromTo g u v)) u v)) u)
       = From g u \<and>
     take (length (To g v)) (To (fst (AddEdgeFromTo (fst (AddEdgeFromTo g u v)) u v)) v)
       = To g v"
proof -
  from assms obtain m where m: "edges g (ID u) = Some m"
    using graph_inv_bucket [OF reachable_graph_inv] by blast
  define g1 where "g1 = fst (AddEdgeFromTo g u v)"
  have g1: "AddEdgeFromTo g u v = (g1, None)"
    and e1: "edges g1 (ID u) = Some (m(ID v \<mapsto> \<lparr>edge_from = u, edge_to = v\<rparr>))"
    and f1: "From g1 u = From g u @ [u]" and t1: "To g1 v = To g v @ [v]"
    unfolding g1_def by (simp_all add: AddEdgeFromTo_ok [OF m] From_def To_def)
  define g2 where "g2 = fst (AddEdgeFromTo g1 u v)"
  have g2: "AddEdgeFromTo g1 u v = (g2, None)"
    and e2: "edges g2 = edges g1"
    and f2: "From g2 u = From g1 u @ [u]" and t2: "To g2 v = To g1 v @ [v]"
    unfolding g2_def using e1 by (auto simp add: AddEdgeFromTo_ok [OF e1] From_def To_def)
  have "EdgeOf g2 u v = Some \<lparr>edge_from = u, edge_to = v\<rparr>"
    by (simp add: EdgeOf_def e2 e1)
  then show ?thesis
    using g1 g2 e2 f1 t1 f2 t2 unfolding g1_def [symmetric] g2_def [symmetric]
    by (simp add: g1_def [symmetric])
qed

theorem AddEdgeFromTo_twice_witness:
  "reachable ex_graph \<and> Has ex_graph ex_a \<and>
   edges (fst (AddEdgeFromTo (fst (AddEdgeFromTo ex_graph ex_a ex_b)) ex_a ex_b))
     = edges (fst (AddEdgeFromTo ex_graph ex_a ex_b)) \<and>
   EdgeOf (fst (AddEdgeFromTo (fst (AddEdgeFromTo ex_graph ex_a ex_b)) ex_a ex_b)) ex_a ex_b
     = Some \<lparr>edge_from = ex_a, edge_to = ex_b\<rparr> \<and>
   length (From (fst (AddEdgeFromTo (fst (AddEdgeFromTo ex_graph ex_a ex_b)) ex_a ex_b)) ex_a)
     = length (From ex_graph ex_a) + 2 \<and>
   length (To (fst (AddEdgeFromTo (fst (AddEdgeFromTo ex_graph ex_a ex_b)) ex_a ex_b)) ex_b)
     = length (To ex_graph ex_b) + 2"
  using AddEdgeFromTo_twice [OF reachable_ex_graph Has_ex_graph(1), of ex_b]
    reachable_ex_graph Has_ex_graph(1)
  by simp

subsection \<open>Name uniqueness\<close>

text \<open>
  Claim C9: whatever sequence of \<open>AddNode\<close> calls is made on a new graph, no two nodes of
  the graph share a package name; a call with a node whose name is already present, or
  whose identifier is, faults with a panic and leaves the graph as it was, so the node is
  not merged with the one that is there.
\<close>

theorem AddNode_names_unique:
  "distinct (map PkgName (Nodes (AddNodes NewGraph vs))) \<and>
   (HasName g (PkgName v) \<longrightarrow> AddNode g v = (g, Some NameAlreadyInGraph)) \<and>
   (\<not> HasName g (PkgName v) \<and> Has g v \<longrightarrow> AddNode g v = (g, Some IdAlreadyHere))"
proof -
  have "graph_inv (AddNodes NewGraph vs)"
    by (rule graph_inv_AddNodes [OF graph_inv_NewGraph])
  then have "distinct (map PkgName (Nodes (AddNodes NewGraph vs)))"
    by (simp add: graph_inv_def Nodes_def)
  then show ?thesis
    by (simp add: AddNode_def)
qed

theorem AddNode_names_unique_witness:
  "distinct (map PkgName (Nodes (AddNodes NewGraph [ex_a, ex_b, ex_same_name, ex_same_id]))) \<and>
   Nodes (AddNodes NewGraph [ex_a, ex_b, ex_same_name, ex_same_id]) = [ex_a, ex_b] \<and>
   HasName ex_graph (PkgName ex_same_name) \<and>
   AddNode ex_graph ex_same_name = (ex_graph, Some NameAlreadyInGraph) \<and>
   \<not> HasName ex_graph (PkgName ex_same_id) \<and> Has ex_graph ex_same_id \<and>
   AddNode ex_graph ex_same_id = (ex_graph, Some IdAlreadyHere)"
proof -
  have n: "HasName ex_graph (PkgName ex_same_name)"
    by (simp add: ex_defs graph_defs)
  have i: "\<not> HasName ex_graph (PkgName ex_same_id) \<and> Has ex_graph ex_same_id"
    by (simp add: ex_defs graph_defs)
  have l: "Nodes (AddNodes NewGraph [ex_a, ex_b, ex_same_name, ex_same_id]) = [ex_a, ex_b]"
    by (simp add: ex_defs graph_defs)
  show ?thesis
    using AddNode_names_unique [of "[ex_a, ex_b, ex_same_name, ex_same_id]" ex_graph ex_same_name]
      AddNode_names_unique [of "[]" ex_graph ex_same_id] n i l
    by simp
qed

subsection \<open>Queries about what is not in the graph\<close>

text \<open>
  Claim C10, as stated: for any node not present in the graph, \<open>To\<close> returns an empty
  sequence. \<open>AddEdgeFromTo\<close> does not check its second node: after the edge from the added
  node \<open>a\<close> to the node \<open>b\<close>, which was made by \<open>NewNode\<close> but never added, no call has
  faulted, the graph has the one node \<open>a\<close> and does not know \<open>b\<close>, and \<open>To(b)\<close> is not empty.
\<close>

theorem To_of_node_never_added:
  "reachable (fst (AddEdgeFromTo (fst (NewNode ex_graphA ex_pkgB)) ex_a ex_b)) \<and>
   snd (AddEdgeFromTo (fst (NewNode ex_graphA ex_pkgB)) ex_a ex_b) = None \<and>
   Nodes (fst (AddEdgeFromTo (fst (NewNode ex_graphA ex_pkgB)) ex_a ex_b)) = [ex_a] \<and>
   ID ex_b \<notin> ID ` set (Nodes (fst (AddEdgeFromTo (fst (NewNode ex_graphA ex_pkgB)) ex_a ex_b))) \<and>
   \<not> Has (fst (AddEdgeFromTo (fst (NewNode ex_graphA ex_pkgB)) ex_a ex_b)) ex_b \<and>
   To (fst (AddEdgeFromTo (fst (NewNode ex_graphA ex_pkgB)) ex_a ex_b)) ex_b = [ex_b] \<and>
   To (fst (AddEdgeFromTo (fst (NewNode ex_graphA ex_pkgB)) ex_a ex_b)) ex_b \<noteq> []"
proof -
  have "reachable (fst (AddEdgeFromTo (fst (NewNode ex_graphA ex_pkgB)) ex_a ex_b))"
    by (intro reachable_AddEdgeFromTo reachable_not_added)
  moreover have "snd (AddEdgeFromTo (fst (NewNode ex_graphA ex_pkgB)) ex_a ex_b) = None \<and>
   Nodes (fst (AddEdgeFromTo (fst (NewNode ex_graphA ex_pkgB)) ex_a ex_b)) = [ex_a] \<and>
   ID ex_b \<notin> ID ` set (Nodes (fst (AddEdgeFromTo (fst (NewNode ex_graphA ex_pkgB)) ex_a ex_b))) \<and>
   \<not> Has (fst (AddEdgeFromTo (fst (NewNode ex_graphA ex_pkgB)) ex_a ex_b)) ex_b \<and>
   To (fst (AddEdgeFromTo (fst (NewNode ex_graphA ex_pkgB)) ex_a ex_b)) ex_b = [ex_b] \<and>
   To (fst (AddEdgeFromTo (fst (NewNode ex_graphA ex_pkgB)) ex_a ex_b)) ex_b \<noteq> []"
    by (simp add: ex_defs graph_defs)
  ultimately show ?thesis by blast
qed

text \<open>
  Claim C10, amended: the queries are total, and on every graph the operations produce
  they give the empty answers on absent inputs, \<open>To\<close> excepted: a name that no node of the
  graph has is unknown to \<open>HasName\<close> and \<open>NodeWithName\<close> gives nil for it; a node whose
  identifier no node of the graph has is unknown to \<open>Has\<close> and \<open>From\<close> gives the empty
  sequence for it; \<open>To\<close> gives the empty sequence for it when every edge of the graph was
  added between nodes that had been added. None of the five queries has a faulting case.
\<close>

theorem queries_on_absent:
  assumes "reachable g"
  shows "(name \<notin> PkgName ` set (Nodes g) \<longrightarrow>
            \<not> HasName g name \<and> NodeWithName g name = None) \<and>
         (ID v \<notin> ID ` set (Nodes g) \<longrightarrow>
            \<not> Has g v \<and> From g v = [] \<and> (built g \<longrightarrow> To g v = []))"
proof -
  have gi: "graph_inv g" and fi: "dom (edgesFrom g) \<subseteq> dom (nodeIDs g)"
    using assms by (simp_all add: reachable_graph_inv reachable_From_inv)
  have "\<not> HasName g name \<and> NodeWithName g name = None"
    if "name \<notin> PkgName ` set (Nodes g)"
    using gi that unfolding graph_inv_def Nodes_def NodeWithName_def HasName_def by blast
  moreover have "\<not> Has g v \<and> From g v = [] \<and> (built g \<longrightarrow> To g v = [])"
    if "ID v \<notin> ID ` set (Nodes g)"
  proof -
    from gi that have n: "nodeIDs g (ID v) = None"
      unfolding graph_inv_def Nodes_def by blast
    with fi have f: "edgesFrom g (ID v) = None" by blast
    have "To g v = []" if "built g"
    proof -
      from built_adj_inv [OF that] n have "edgesTo g (ID v) = None"
        unfolding adj_inv_def by blast
      then show ?thesis by (simp add: To_def)
    qed
    with n f show ?thesis by (simp add: Has_def From_def)
  qed
  ultimately show ?thesis by blast
qed

theorem queries_on_absent_witness:
  "reachable (fst (AddEdgeFromTo ex_graph ex_a ex_b)) \<and>
   built (fst (AddEdgeFromTo ex_graph ex_a ex_b)) \<and>
   ''c'' \<notin> PkgName ` set (Nodes (fst (AddEdgeFromTo ex_graph ex_a ex_b))) \<and>
   \<not> HasName (fst (AddEdgeFromTo ex_graph ex_a ex_b)) ''c'' \<and>
   NodeWithName (fst (AddEdgeFromTo ex_graph ex_a ex_b)) ''c'' = None \<and>
   ID ex_c \<notin> ID ` set (Nodes (fst (AddEdgeFromTo ex_graph ex_a ex_b))) \<and>
   \<not> Has (fst (AddEdgeFromTo ex_graph ex_a ex_b)) ex_c \<and>
   From (fst (AddEdgeFromTo ex_graph ex_a ex_b)) ex_c = [] \<and>
   To (fst (AddEdgeFromTo ex_graph ex_a ex_b)) ex_c = [] \<and>
   reachable (fst (AddEdgeFromTo (fst (NewNode ex_graphA ex_pkgB)) ex_a ex_b)) \<and>
   ID ex_b \<notin> ID ` set (Nodes (fst (AddEdgeFromTo (fst (NewNode ex_graphA ex_pkgB)) ex_a ex_b))) \<and>
   \<not> Has (fst (AddEdgeFromTo (fst (NewNode ex_graphA ex_pkgB)) ex_a ex_b)) ex_b \<and>
   From (fst (AddEdgeFromTo (fst (NewNode ex_graphA ex_pkgB)) ex_a ex_b)) ex_b = []"
proof -
  have b: "built (fst (AddEdgeFromTo ex_graph ex_a ex_b))"
    by (rule built_AddEdgeFromTo [OF built_ex_graph Has_ex_graph])
  have r: "reachable (fst (AddEdgeFromTo ex_graph ex_a ex_b))"
    by (rule built_reachable [OF b])
  have n: "''c'' \<notin> PkgName ` set (Nodes (fst (AddEdgeFromTo ex_graph ex_a ex_b)))"
    by (simp add: ex_defs graph_defs)
  have i: "ID ex_c \<notin> ID ` set (Nodes (fst (AddEdgeFromTo ex_graph ex_a ex_b)))"
    by (simp add: ex_defs graph_defs)
  have r2: "reachable (fst (AddEdgeFromTo (fst (NewNode ex_graphA ex_pkgB)) ex_a ex_b))"
    by (intro reachable_AddEdgeFromTo reachable_not_added)
  have i2: "ID ex_b \<notin> ID ` set (Nodes (fst (AddEdgeFromTo (fst (NewNode ex_graphA ex_pkgB)) ex_a ex_b)))"
    by (simp add: ex_defs graph_defs)
  show ?thesis
    using queries_on_absent [OF r, of "''c''" ex_c] queries_on_absent [OF r2, of "''c''" ex_b]
      b r n i r2 i2 by simp
qed

section \<open>Properties of the factory\<close>


lemmas factory_defs = layer_def initLayer_def addFetched_def addFetchedPkg_def scanDep_def
  fromAUR_def mark_def unknownPkg_def defaultDepFunc_def request_def unresolved_def
  NumRequestsAUR_def SetNoUnknown_def ex_quiet_def ex_nowhere_def ex_offline_def
  ex_ghost_def ex_ghost_layer_def ex_ghost_graph_def ex_sync_layer_def ex_sync_graph_def

lemma same_index_refl: "same_index g g"
  by (simp add: same_index_def)

lemma same_index_trans: "same_index g g1 \<Longrightarrow> same_index g1 g2 \<Longrightarrow> same_index g g2"
  by (simp add: same_index_def)

lemma graph_inv_same_index: "graph_inv g \<Longrightarrow> same_index g g' \<Longrightarrow> graph_inv g'"
  by (simp add: graph_inv_def same_index_def HasName_def)

lemma unresolved_same_index: "same_index g g' \<Longrightarrow> unresolved f g' d = unresolved f g d"
  by (simp add: unresolved_def same_index_def HasName_def)

lemma AddEdgeFromTo_same_index:
  "AddEdgeFromTo g a b = (g', None) \<Longrightarrow> same_index g g'"
  by (auto simp: AddEdgeFromTo_def same_index_def split: option.splits if_splits)

lemma AddEdgeFromTo_EdgeOf:
  "AddEdgeFromTo g a b = (g', None) \<Longrightarrow>
   EdgeOf g' w u =
     (if ID a = ID w \<and> ID b = ID u then Some \<lparr>edge_from = a, edge_to = b\<rparr> else EdgeOf g w u)"
  by (auto simp: AddEdgeFromTo_def EdgeOf_def split: option.splits if_splits)

lemma NewNode_same_index: "same_index g (fst (NewNode g p))"
  by (simp add: same_index_def NewNode_def NewNodeID_def)

lemma NewNode_EdgeOf: "EdgeOf (fst (NewNode g p)) w u = EdgeOf g w u"
  by (simp add: EdgeOf_def NewNode_def NewNodeID_def)

lemma same_index_nextID: "same_index (g\<lparr>nextID := n\<rparr>) g' = same_index g g'"
  by (simp add: same_index_def)

subsection \<open>The scan of a layer\<close>

lemma scanDep_same_index:
  "scanDep f v d s = Inr s' \<Longrightarrow> same_index (graph s) (graph s')"
  unfolding scanDep_def
  by (auto simp: same_index_nextID same_index_refl NewNode_def NewNodeID_def
      split: if_splits option.splits prod.splits
      dest!: AddEdgeFromTo_same_index)

lemma scanDep_pending:
  assumes "scanDep f v d s = Inr s'"
  shows "set (pending s d0) \<subseteq> set (pending s' d0)"
    and "set (pending s' d0) \<subseteq> insert v (set (pending s d0))"
  using assms unfolding scanDep_def
  by (auto split: if_splits option.splits prod.splits)

lemma scanDep_unresolved:
  assumes "scanDep f v d s = Inr s'" and "unresolved f (graph s) d"
  shows "v \<in> set (pending s' d)"
  using assms unfolding scanDep_def unresolved_def
  by (auto split: if_splits option.splits prod.splits)

lemma scanDeps_same_index:
  "scanDeps f v ds s = Inr s' \<Longrightarrow> same_index (graph s) (graph s')"
  by (induction ds arbitrary: s)
    (auto simp: same_index_refl split: sum.splits
      dest!: scanDep_same_index intro: same_index_trans)

lemma scanDeps_pending:
  "scanDeps f v ds s = Inr s' \<Longrightarrow>
   set (pending s d0) \<subseteq> set (pending s' d0) \<and>
   set (pending s' d0) \<subseteq> insert v (set (pending s d0))"
proof (induction ds arbitrary: s)
  case Nil
  then show ?case by auto
next
  case (Cons d ds)
  then obtain s1 where 1: "scanDep f v d s = Inr s1" and 2: "scanDeps f v ds s1 = Inr s'"
    by (auto split: sum.splits)
  from scanDep_pending [OF 1, of d0] Cons.IH [OF 2] show ?case by blast
qed

lemma scanDeps_unresolved:
  "scanDeps f v ds s = Inr s' \<Longrightarrow> d \<in> set ds \<Longrightarrow> unresolved f (graph s) d \<Longrightarrow>
   v \<in> set (pending s' d)"
proof (induction ds arbitrary: s)
  case Nil
  then show ?case by simp
next
  case (Cons d1 ds)
  then obtain s1 where 1: "scanDep f v d1 s = Inr s1" and 2: "scanDeps f v ds s1 = Inr s'"
    by (auto split: sum.splits)
  have u1: "unresolved f (graph s1) d"
    using Cons.prems(3) unresolved_same_index [OF scanDep_same_index [OF 1]] by simp
  show ?case
  proof (cases "d = d1")
    case True
    with scanDep_unresolved [OF 1] Cons.prems(3) have "v \<in> set (pending s1 d)" by simp
    with scanDeps_pending [OF 2, of d] show ?thesis by blast
  next
    case False
    with Cons.prems(2) have "d \<in> set ds" by simp
    from Cons.IH [OF 2 this u1] show ?thesis .
  qed
qed

lemma scanFrontier_same_index:
  "scanFrontier f lst s = Inr s' \<Longrightarrow> same_index (graph s) (graph s')"
  by (induction lst arbitrary: s)
    (auto simp: same_index_refl split: sum.splits
      dest!: scanDeps_same_index intro: same_index_trans)

lemma scanFrontier_pending:
  "scanFrontier f lst s = Inr s' \<Longrightarrow>
   set (pending s d0) \<subseteq> set (pending s' d0) \<and>
   set (pending s' d0) \<subseteq> set lst \<union> set (pending s d0)"
proof (induction lst arbitrary: s)
  case Nil
  then show ?case by auto
next
  case (Cons v vs)
  then obtain s1 where 1: "scanDeps f v (depFunc f (AnyPackage v)) s = Inr s1"
    and 2: "scanFrontier f vs s1 = Inr s'"
    by (auto split: sum.splits)
  from scanDeps_pending [OF 1, of d0] Cons.IH [OF 2] show ?case by auto
qed

lemma scanFrontier_unresolved:
  "scanFrontier f lst s = Inr s' \<Longrightarrow> v \<in> set lst \<Longrightarrow>
   d \<in> set (depFunc f (AnyPackage v)) \<Longrightarrow> unresolved f (graph s) d \<Longrightarrow>
   v \<in> set (pending s' d)"
proof (induction lst arbitrary: s)
  case Nil
  then show ?case by simp
next
  case (Cons v1 vs)
  then obtain s1 where 1: "scanDeps f v1 (depFunc f (AnyPackage v1)) s = Inr s1"
    and 2: "scanFrontier f vs s1 = Inr s'"
    by (auto split: sum.splits)
  have u1: "unresolved f (graph s1) d"
    using Cons.prems(4) unresolved_same_index [OF scanDeps_same_index [OF 1]] by simp
  show ?case
  proof (cases "v = v1")
    case True
    with scanDeps_unresolved [OF 1] Cons.prems(3,4) have "v \<in> set (pending s1 d)" by simp
    with scanFrontier_pending [OF 2, of d] show ?thesis by blast
  next
    case False
    with Cons.prems(2) have "v \<in> set vs" by simp
    from Cons.IH [OF 2 this Cons.prems(3) u1] show ?thesis .
  qed
qed


subsection \<open>Fetched packages\<close>

lemma connectPending_same_index:
  "connectPending g vs u = Inr g' \<Longrightarrow> same_index g g'"
  by (induction vs arbitrary: g)
    (auto simp: same_index_refl split: prod.splits option.splits
      dest!: AddEdgeFromTo_same_index intro: same_index_trans)

lemma connectPending_other:
  "connectPending g vs u = Inr g' \<Longrightarrow> ID u0 \<noteq> ID u \<Longrightarrow> EdgeOf g' w u0 = EdgeOf g w u0"
proof (induction vs arbitrary: g)
  case Nil
  then show ?case by simp
next
  case (Cons v vs)
  then obtain g1 where 1: "AddEdgeFromTo g v u = (g1, None)"
    and 2: "connectPending g1 vs u = Inr g'"
    by (auto split: prod.splits option.splits)
  from Cons.IH [OF 2 Cons.prems(2)] AddEdgeFromTo_EdgeOf [OF 1, of w u0] Cons.prems(2)
  show ?case by simp
qed

lemma connectPending_edges:
  "connectPending g vs u = Inr g' \<Longrightarrow> inj_on ID (insert w (set vs)) \<Longrightarrow>
   w \<in> set vs \<or> EdgeOf g w u = Some \<lparr>edge_from = w, edge_to = u\<rparr> \<Longrightarrow>
   EdgeOf g' w u = Some \<lparr>edge_from = w, edge_to = u\<rparr>"
proof (induction vs arbitrary: g)
  case Nil
  then show ?case by simp
next
  case (Cons v vs)
  then obtain g1 where 1: "AddEdgeFromTo g v u = (g1, None)"
    and 2: "connectPending g1 vs u = Inr g'"
    by (auto split: prod.splits option.splits)
  have inj: "inj_on ID (insert w (set vs))"
    by (rule inj_on_subset [OF Cons.prems(2)]) auto
  have same: "ID v = ID w \<Longrightarrow> v = w"
    using inj_onD [OF Cons.prems(2), of v w] by simp
  have "w \<in> set vs \<or> EdgeOf g1 w u = Some \<lparr>edge_from = w, edge_to = u\<rparr>"
    using Cons.prems(3) AddEdgeFromTo_EdgeOf [OF 1, of w u] same by auto
  from Cons.IH [OF 2 inj this] show ?case .
qed

lemma AddNode_ok:
  assumes "AddNode g u = (g2, None)"
  shows "\<not> HasName g (PkgName u)" and "\<not> Has g u"
    and "names g2 = (names g)(PkgName u \<mapsto> u)"
    and "g2 = fst (AddNode g u)"
    and "EdgeOf g2 w u0 = (if ID w = ID u then None else EdgeOf g w u0)"
    and "Has g2 u"
  using assms by (auto simp: AddNode_def EdgeOf_def Has_def split: if_splits)

lemma addFetchedPkg_parts:
  assumes "addFetchedPkg s p = Inr s'"
  obtains g2 g3 u where "u = \<lparr>ID = nextID (graph s) + 1, AnyPackage = p\<rparr>"
    and "AddNode (fst (NewNode (graph s) p)) u = (g2, None)"
    and "connectPending g2 (pending s (Name p)) u = Inr g3"
    and "s' = s\<lparr>graph := g3, new := new s @ [u]\<rparr>"
  using assms unfolding addFetchedPkg_def
  by (auto simp: NewNode_def NewNodeID_def PkgName_def
      split: prod.splits option.splits sum.splits)

lemma addFetchedPkg_graph_inv:
  assumes "addFetchedPkg s p = Inr s'" and "graph_inv (graph s)"
  shows "graph_inv (graph s')"
proof -
  from assms(1) obtain g2 g3 u where
    a: "AddNode (fst (NewNode (graph s) p)) u = (g2, None)"
    and c: "connectPending g2 (pending s (Name p)) u = Inr g3"
    and s': "s' = s\<lparr>graph := g3, new := new s @ [u]\<rparr>"
    by (rule addFetchedPkg_parts)
  have "graph_inv g2"
    using graph_inv_AddNode [OF graph_inv_NewNode [OF assms(2)], of p u] a by simp
  from graph_inv_same_index [OF this connectPending_same_index [OF c]] s'
  show ?thesis by simp
qed

lemma addFetchedPkg_pending:
  "addFetchedPkg s p = Inr s' \<Longrightarrow> pending s' = pending s"
  by (erule addFetchedPkg_parts) simp

lemma linked_Has:
  assumes "graph_inv (graph s)" and "names (graph s) d = Some u"
  shows "Has (graph s) u"
  using assms unfolding graph_inv_def Has_def by blast

lemma addFetchedPkg_keeps_linked:
  assumes "addFetchedPkg s p = Inr s'" and gi: "graph_inv (graph s)"
    and l: "linked s d u W"
  shows "linked s' d u W"
proof -
  from assms(1) obtain g2 g3 u' where
    a: "AddNode (fst (NewNode (graph s) p)) u' = (g2, None)"
    and c: "connectPending g2 (pending s (Name p)) u' = Inr g3"
    and s': "s' = s\<lparr>graph := g3, new := new s @ [u']\<rparr>"
    by (rule addFetchedPkg_parts)
  let ?g1 = "fst (NewNode (graph s) p)"
  have n1: "names ?g1 = names (graph s)" and h1: "Has ?g1 = Has (graph s)"
    by (simp_all add: NewNode_def NewNodeID_def Has_def fun_eq_iff)
  from l have nd: "names (graph s) d = Some u" and un: "u \<in> set (new s)"
    and ed: "\<And>w. w \<in> W \<Longrightarrow> EdgeOf (graph s) w u = Some \<lparr>edge_from = w, edge_to = u\<rparr>"
    by (auto simp: linked_def)
  have hu: "Has (graph s) u" by (rule linked_Has [OF gi nd])
  have ne: "d \<noteq> PkgName u'"
    using AddNode_ok(1) [OF a] nd n1 by (auto simp: HasName_def)
  have idne: "ID u \<noteq> ID u'"
    using AddNode_ok(2) [OF a] hu h1 by (auto simp: Has_def)
  have names: "names g3 d = Some u"
    using connectPending_same_index [OF c] AddNode_ok(3) [OF a] n1 nd ne
    by (simp add: same_index_def)
  have "EdgeOf g3 w u = Some \<lparr>edge_from = w, edge_to = u\<rparr>" if "w \<in> W" for w
  proof -
    have e0: "EdgeOf ?g1 w u = Some \<lparr>edge_from = w, edge_to = u\<rparr>"
      using ed [OF that] by (simp add: NewNode_EdgeOf)
    then have "edges ?g1 (ID w) \<noteq> None"
      by (auto simp: EdgeOf_def split: option.splits)
    moreover have "graph_inv ?g1" by (rule graph_inv_NewNode [OF gi])
    ultimately have "nodeIDs ?g1 (ID w) \<noteq> None"
      unfolding graph_inv_def by (metis domIff)
    with AddNode_ok(2) [OF a] have "ID w \<noteq> ID u'"
      by (auto simp: Has_def)
    with AddNode_ok(5) [OF a, of w u] e0
    have "EdgeOf g2 w u = Some \<lparr>edge_from = w, edge_to = u\<rparr>" by simp
    with connectPending_other [OF c idne, of w] show ?thesis by simp
  qed
  with names un s' show ?thesis by (simp add: linked_def)
qed

lemma addFetchedPkg_makes_linked:
  assumes "addFetchedPkg s p = Inr s'" and inj: "inj_on ID (set (pending s (Name p)))"
  shows "\<exists>u. AnyPackage u = p \<and> linked s' (Name p) u (set (pending s (Name p)))"
proof -
  from assms(1) obtain g2 g3 u where
    u: "u = \<lparr>ID = nextID (graph s) + 1, AnyPackage = p\<rparr>"
    and a: "AddNode (fst (NewNode (graph s) p)) u = (g2, None)"
    and c: "connectPending g2 (pending s (Name p)) u = Inr g3"
    and s': "s' = s\<lparr>graph := g3, new := new s @ [u]\<rparr>"
    by (rule addFetchedPkg_parts)
  have pn: "PkgName u = Name p" using u by (simp add: PkgName_def)
  have names: "names g3 (Name p) = Some u"
    using connectPending_same_index [OF c] AddNode_ok(3) [OF a] pn
    by (simp add: same_index_def)
  have "EdgeOf g3 w u = Some \<lparr>edge_from = w, edge_to = u\<rparr>"
    if "w \<in> set (pending s (Name p))" for w
  proof -
    from that have "insert w (set (pending s (Name p))) = set (pending s (Name p))" by auto
    with inj have "inj_on ID (insert w (set (pending s (Name p))))" by simp
    from connectPending_edges [OF c this] that show ?thesis by simp
  qed
  with names s' have "linked s' (Name p) u (set (pending s (Name p)))"
    by (simp add: linked_def)
  moreover have "AnyPackage u = p" using u by simp
  ultimately show ?thesis by blast
qed

lemma addFetchedPkgs_graph_inv:
  "addFetchedPkgs s ps = Inr s' \<Longrightarrow> graph_inv (graph s) \<Longrightarrow> graph_inv (graph s')"
  by (induction ps arbitrary: s)
    (auto split: sum.splits dest: addFetchedPkg_graph_inv)

lemma addFetchedPkgs_pending:
  "addFetchedPkgs s ps = Inr s' \<Longrightarrow> pending s' = pending s"
  by (induction ps arbitrary: s)
    (auto split: sum.splits dest: addFetchedPkg_pending)

lemma addFetchedPkgs_keeps_linked:
  "addFetchedPkgs s ps = Inr s' \<Longrightarrow> graph_inv (graph s) \<Longrightarrow> linked s d u W \<Longrightarrow>
   linked s' d u W"
proof (induction ps arbitrary: s)
  case Nil
  then show ?case by simp
next
  case (Cons p ps)
  then obtain s1 where 1: "addFetchedPkg s p = Inr s1" and 2: "addFetchedPkgs s1 ps = Inr s'"
    by (auto split: sum.splits)
  from Cons.IH [OF 2 addFetchedPkg_graph_inv [OF 1 Cons.prems(2)]
      addFetchedPkg_keeps_linked [OF 1 Cons.prems(2,3)]]
  show ?case .
qed

lemma addFetchedPkgs_makes_linked:
  "addFetchedPkgs s ps = Inr s' \<Longrightarrow> graph_inv (graph s) \<Longrightarrow> p \<in> set ps \<Longrightarrow>
   inj_on ID (set (pending s (Name p))) \<Longrightarrow>
   \<exists>u. AnyPackage u = p \<and> linked s' (Name p) u (set (pending s (Name p)))"
proof (induction ps arbitrary: s)
  case Nil
  then show ?case by simp
next
  case (Cons q ps)
  then obtain s1 where 1: "addFetchedPkg s q = Inr s1" and 2: "addFetchedPkgs s1 ps = Inr s'"
    by (auto split: sum.splits)
  have gi1: "graph_inv (graph s1)" by (rule addFetchedPkg_graph_inv [OF 1 Cons.prems(2)])
  have p1: "pending s1 = pending s" by (rule addFetchedPkg_pending [OF 1])
  show ?case
  proof (cases "p = q")
    case True
    with addFetchedPkg_makes_linked [OF 1] Cons.prems(4)
    obtain u where "AnyPackage u = p" and "linked s1 (Name p) u (set (pending s (Name p)))"
      by blast
    with addFetchedPkgs_keeps_linked [OF 2 gi1] show ?thesis by blast
  next
    case False
    with Cons.prems(3) have "p \<in> set ps" by simp
    from Cons.IH [OF 2 gi1 this] Cons.prems(4) p1 show ?thesis by simp
  qed
qed


lemma filter_unique:
  "distinct (map f xs) \<Longrightarrow> x \<in> set xs \<Longrightarrow> filter (\<lambda>y. f y = f x) xs = [x]"
proof (induction xs)
  case Nil
  then show ?case by simp
next
  case (Cons a xs)
  show ?case
  proof (cases "a = x")
    case True
    with Cons.prems(1) have "\<forall>y\<in>set xs. f y \<noteq> f x" by (auto simp: image_iff)
    then have "filter (\<lambda>y. f y = f x) xs = []" by (simp add: filter_empty_conv)
    with True show ?thesis by simp
  next
    case False
    with Cons.prems have "x \<in> set xs" and "f a \<noteq> f x" by (auto simp: image_iff)
    with Cons.IH Cons.prems(1) show ?thesis by simp
  qed
qed

lemma layer_Inr_parts:
  assumes "layer aur f g lst = (f', Inr (g', new'))"
  obtains s s2 where "scanFrontier f lst (initLayer g) = Inr s"
    and "request f g lst = fromAUR (unavailable s)"
    and "addFetched f s (aur (aurCalls f) (request f g lst)) = Inr s2"
    and "g' = graph s2" and "new' = new s2"
  using assms unfolding layer_def request_def
  by (auto split: sum.splits)

subsection \<open>What a layer asks the remote source for\<close>

lemma set_mark: "set (mark ks d) = insert d (set ks)"
  by (auto simp: mark_def)

lemma distinct_mark: "distinct ks \<Longrightarrow> distinct (mark ks d)"
  by (simp add: mark_def)

lemma scanDep_unavailable:
  assumes "scanDep f v d s = Inr s'"
  shows "set (unavailable s') =
      set (unavailable s) \<union> (if unresolved f (graph s) d then {d} else {})"
    and "distinct (unavailable s) \<Longrightarrow> distinct (unavailable s')"
  using assms unfolding scanDep_def unresolved_def
  by (auto simp: set_mark distinct_mark split: if_splits option.splits prod.splits)

lemma scanDeps_unavailable:
  "scanDeps f v ds s = Inr s' \<Longrightarrow>
   set (unavailable s') = set (unavailable s) \<union> {d \<in> set ds. unresolved f (graph s) d} \<and>
   (distinct (unavailable s) \<longrightarrow> distinct (unavailable s'))"
proof (induction ds arbitrary: s)
  case Nil
  then show ?case by simp
next
  case (Cons d ds)
  then obtain s1 where 1: "scanDep f v d s = Inr s1" and 2: "scanDeps f v ds s1 = Inr s'"
    by (auto split: sum.splits)
  have u: "\<And>x. unresolved f (graph s1) x = unresolved f (graph s) x"
    by (rule unresolved_same_index [OF scanDep_same_index [OF 1]])
  from scanDep_unavailable [OF 1] Cons.IH [OF 2] u show ?case by auto
qed

lemma scanFrontier_unavailable:
  "scanFrontier f lst s = Inr s' \<Longrightarrow>
   set (unavailable s') = set (unavailable s) \<union>
     {d. \<exists>v\<in>set lst. d \<in> set (depFunc f (AnyPackage v)) \<and> unresolved f (graph s) d} \<and>
   (distinct (unavailable s) \<longrightarrow> distinct (unavailable s'))"
proof (induction lst arbitrary: s)
  case Nil
  then show ?case by simp
next
  case (Cons v vs)
  then obtain s1 where 1: "scanDeps f v (depFunc f (AnyPackage v)) s = Inr s1"
    and 2: "scanFrontier f vs s1 = Inr s'"
    by (auto split: sum.splits)
  have u: "\<And>x. unresolved f (graph s1) x = unresolved f (graph s) x"
    by (rule unresolved_same_index [OF scanDeps_same_index [OF 1]])
  from scanDeps_unavailable [OF 1] Cons.IH [OF 2] u show ?case by auto
qed

text \<open>
  The request of a layer, for any frontier: with \<open>K\<close> distinct names that nothing local
  resolves, the list handed to the remote source has \<open>2 * K\<close> entries, namely \<open>K\<close> empty
  strings followed by the \<open>K\<close> names without repetition.
\<close>

lemma request_shape:
  assumes "scanFrontier f lst (initLayer g) = Inr s"
  shows "request f g lst = replicate (length (unavailable s)) [] @ unavailable s"
    and "distinct (unavailable s)"
    and "set (unavailable s) =
      {d. \<exists>v\<in>set lst. d \<in> set (depFunc f (AnyPackage v)) \<and> unresolved f g d}"
    and "length (request f g lst) = 2 * length (unavailable s)"
  using assms scanFrontier_unavailable [OF assms]
  by (simp_all add: request_def fromAUR_def initLayer_def)

text \<open>Every layer whose scan does not fault counts exactly one lookup.\<close>

lemma layer_counts_one_lookup:
  assumes "scanFrontier f lst (initLayer g) = Inr s"
  shows "NumRequestsAUR (fst (layer aur f g lst)) = NumRequestsAUR f + 1"
  using assms by (simp add: layer_def NumRequestsAUR_def split: sum.splits)

subsection \<open>The loop\<close>

lemma layer_empty_no_answer:
  "aur (aurCalls f) [] = ([], None) \<Longrightarrow>
   layer aur f g [] = (f\<lparr>aurCalls := aurCalls f + 1\<rparr>, Inr (g, []))"
  by (simp add: factory_defs)

lemma loop_returns_not_silent:
  assumes "NewGraph_loop aur f g lst = Some y"
  shows "\<not> (lst = [] \<and> (\<forall>n. aur n [] = ([], None)))"
proof (rule NewGraph_loop.raw_induct
    [where P = "\<lambda>aur f g lst y. \<not> (lst = [] \<and> (\<forall>n. aur n [] = ([], None)))", OF _ assms])
  fix loop :: "remote \<Rightarrow> Factory \<Rightarrow> Graph \<Rightarrow> Node list \<Rightarrow> (Factory \<times> (failure + Graph)) option"
    and aur f g lst y
  assume IH: "\<And>aur f g lst y. loop aur f g lst = Some y \<Longrightarrow>
      \<not> (lst = [] \<and> (\<forall>n. aur n [] = ([], None)))"
  assume step: "(if length lst = 0
      then case layer aur f g lst of
             (f', Inl e) \<Rightarrow> Some (f', Inl e)
           | (f', Inr (g', new')) \<Rightarrow> loop aur f' g' new'
      else Some (f, Inr g)) = Some y"
  show "\<not> (lst = [] \<and> (\<forall>n. aur n [] = ([], None)))"
  proof
    assume a: "lst = [] \<and> (\<forall>n. aur n [] = ([], None))"
    then have "layer aur f g lst = (f\<lparr>aurCalls := aurCalls f + 1\<rparr>, Inr (g, []))"
      by (simp add: layer_empty_no_answer)
    with step a have "loop aur (f\<lparr>aurCalls := aurCalls f + 1\<rparr>) g [] = Some y"
      by simp
    from IH [OF this] a show False by simp
  qed
qed

lemma loop_never_returns:
  assumes "\<And>n. aur n [] = ([], None)"
  shows "NewGraph_loop aur f g [] = None"
proof (cases "NewGraph_loop aur f g []")
  case None
  then show ?thesis .
next
  case (Some y)
  from loop_returns_not_silent [OF Some] assms show ?thesis by simp
qed

lemma loop_quiet_never_returns: "NewGraph_loop ex_quiet f g [] = None"
  by (rule loop_never_returns) (simp add: ex_quiet_def)

lemma seedNodes_length:
  "seedNodes g lst ps = Inr (g', lst') \<Longrightarrow> length lst' = length lst + length ps"
  by (induction ps arbitrary: g lst)
    (auto split: prod.splits option.splits)

text \<open>
  With at least one seed package the loop body never runs: \<open>NewGraph\<close> returns the graph
  of the seed nodes as it is, and the remote source is never asked.
\<close>

lemma NewGraph_nonempty_returns_seeds:
  assumes "pkgs \<noteq> []" and "seedNodes NewGraph [] pkgs = Inr (g, lst)"
  shows "Factory_NewGraph aur f pkgs = Some (f, Inr g)"
proof -
  from seedNodes_length [OF assms(2)] assms(1) have "length lst \<noteq> 0" by simp
  then have "NewGraph_loop aur f g lst = Some (f, Inr g)"
    by (subst NewGraph_loop.simps) simp
  then show ?thesis
    by (simp add: Factory_NewGraph_def assms(2))
qed

lemma seedNodes_ex_graphA: "seedNodes NewGraph [] [ex_pkgA] = Inr (ex_graphA, [ex_a])"
  by (simp add: ex_defs graph_defs)

lemma seedNodes_ex_graph: "seedNodes NewGraph [] [ex_pkgA, ex_pkgB] = Inr (ex_graph, [ex_a, ex_b])"
  by (simp add: ex_defs graph_defs numeral_2_eq_2)

lemma ex_ghost_layer_eval:
  "ex_ghost_layer = (ex_factory\<lparr>aurCalls := 1\<rparr>, Inr (ex_ghost_graph, [ex_ghost]))"
  by (simp add: ex_defs graph_defs factory_defs numeral_2_eq_2)

lemma ex_sync_layer_eval:
  "ex_sync_layer = (ex_factory_sync\<lparr>aurCalls := 1\<rparr>, Inr (ex_sync_graph, [ex_b]))"
  by (simp add: ex_defs graph_defs factory_defs numeral_2_eq_2)

subsection \<open>Graphs that the factory returns\<close>

lemma no_edges_EdgeOf: "no_edges g \<Longrightarrow> EdgeOf g u v = None"
  unfolding no_edges_def EdgeOf_def
  by (cases "edges g (ID u)") (auto split: option.splits dest: spec [of _ "ID u"])

lemma no_edges_NewGraph: "no_edges NewGraph"
  by (simp add: no_edges_def NewGraph_def)

lemma no_edges_NewNode: "no_edges g \<Longrightarrow> no_edges (fst (NewNode g p))"
  by (simp add: no_edges_def NewNode_def NewNodeID_def)

lemma no_edges_AddNode: "no_edges g \<Longrightarrow> no_edges (fst (AddNode g u))"
  by (simp add: no_edges_def AddNode_def)

lemma addFetchedPkg_no_edges:
  assumes "addFetchedPkg s p = Inr s'" and "pending s = (\<lambda>d. [])" and "no_edges (graph s)"
  shows "no_edges (graph s')"
proof -
  from assms(1) obtain g2 g3 u where
    a: "AddNode (fst (NewNode (graph s) p)) u = (g2, None)"
    and c: "connectPending g2 (pending s (Name p)) u = Inr g3"
    and s': "s' = s\<lparr>graph := g3, new := new s @ [u]\<rparr>"
    by (rule addFetchedPkg_parts)
  from c assms(2) have "g3 = g2" by simp
  moreover have "no_edges g2"
    using no_edges_AddNode [OF no_edges_NewNode [OF assms(3)], of p u] a by simp
  ultimately show ?thesis using s' by simp
qed

lemma addFetchedPkgs_no_edges:
  "addFetchedPkgs s ps = Inr s' \<Longrightarrow> pending s = (\<lambda>d. []) \<Longrightarrow> no_edges (graph s) \<Longrightarrow>
   no_edges (graph s')"
proof (induction ps arbitrary: s)
  case Nil
  then show ?case by simp
next
  case (Cons p ps)
  then obtain s1 where 1: "addFetchedPkg s p = Inr s1" and 2: "addFetchedPkgs s1 ps = Inr s'"
    by (auto split: sum.splits)
  have "pending s1 = (\<lambda>d. [])"
    using addFetchedPkg_pending [OF 1] Cons.prems(2) by simp
  from Cons.IH [OF 2 this addFetchedPkg_no_edges [OF 1 Cons.prems(2,3)]] show ?case .
qed

lemma layer_empty_no_edges:
  assumes "layer aur f g [] = (f', Inr (g', new'))" and "no_edges g"
  shows "no_edges g'"
proof -
  from assms(1) obtain s2 where
    f: "addFetched f (initLayer g) (aur (aurCalls f) (fromAUR [])) = Inr s2"
    and g': "g' = graph s2"
    by (auto simp: layer_def initLayer_def split: sum.splits)
  have p0: "pending (initLayer g) = (\<lambda>d. [])" and e0: "no_edges (graph (initLayer g))"
    using assms(2) by (simp_all add: initLayer_def)
  obtain pkgs err where ans: "aur (aurCalls f) (fromAUR []) = (pkgs, err)"
    by (cases "aur (aurCalls f) (fromAUR [])")
  show ?thesis
  proof (cases err)
    case None
    with f ans have "addFetchedPkgs (initLayer g) pkgs = Inr s2"
      by (auto simp: addFetched_def split: sum.splits)
    from addFetchedPkgs_no_edges [OF this p0 e0] g' show ?thesis by simp
  next
    case (Some e)
    with f ans obtain ns s1 where
      1: "addFetchedPkgs (initLayer g) (map unknownPkg ns) = Inr s1"
      and 2: "addFetchedPkgs s1 pkgs = Inr s2"
      by (cases e) (auto simp: addFetched_def split: sum.splits if_splits)
    have p1: "pending s1 = (\<lambda>d. [])"
      using addFetchedPkgs_pending [OF 1] p0 by simp
    from addFetchedPkgs_no_edges [OF 2 p1 addFetchedPkgs_no_edges [OF 1 p0 e0]] g'
    show ?thesis by simp
  qed
qed

lemma loop_no_edges:
  assumes "NewGraph_loop aur f g lst = Some y"
  shows "no_edges g \<longrightarrow> (case snd y of Inl e \<Rightarrow> True | Inr g' \<Rightarrow> no_edges g')"
proof (rule NewGraph_loop.raw_induct
    [where P = "\<lambda>aur f g lst y.
       no_edges g \<longrightarrow> (case snd y of Inl e \<Rightarrow> True | Inr g' \<Rightarrow> no_edges g')", OF _ assms])
  fix loop :: "remote \<Rightarrow> Factory \<Rightarrow> Graph \<Rightarrow> Node list \<Rightarrow> (Factory \<times> (failure + Graph)) option"
    and aur f g lst y
  assume IH: "\<And>aur f g lst y. loop aur f g lst = Some y \<Longrightarrow>
      no_edges g \<longrightarrow> (case snd y of Inl e \<Rightarrow> True | Inr g' \<Rightarrow> no_edges g')"
  assume step: "(if length lst = 0
      then case layer aur f g lst of
             (f', Inl e) \<Rightarrow> Some (f', Inl e)
           | (f', Inr (g', new')) \<Rightarrow> loop aur f' g' new'
      else Some (f, Inr g)) = Some y"
  show "no_edges g \<longrightarrow> (case snd y of Inl e \<Rightarrow> True | Inr g' \<Rightarrow> no_edges g')"
  proof
    assume ne: "no_edges g"
    show "case snd y of Inl e \<Rightarrow> True | Inr g' \<Rightarrow> no_edges g'"
    proof (cases "lst = []")
      case False
      with step ne show ?thesis by auto
    next
      case True
      obtain f' r where l: "layer aur f g [] = (f', r)" by (cases "layer aur f g []")
      show ?thesis
      proof (cases r)
        case (Inl e)
        with step True l show ?thesis by auto
      next
        case (Inr gn)
        obtain g1 new1 where gn: "gn = (g1, new1)" by (cases gn)
        from step True l Inr gn have "loop aur f' g1 new1 = Some y" by simp
        moreover have "no_edges g1"
          using layer_empty_no_edges [OF _ ne] l Inr gn by simp
        ultimately show ?thesis using IH by blast
      qed
    qed
  qed
qed

lemma seedNodes_no_edges:
  "seedNodes g lst ps = Inr (g', lst') \<Longrightarrow> no_edges g \<Longrightarrow> no_edges g'"
proof (induction ps arbitrary: g lst)
  case Nil
  then show ?case by simp
next
  case (Cons p ps)
  then obtain g2 where a: "AddNode (fst (NewNode g p)) (snd (NewNode g p)) = (g2, None)"
    and r: "seedNodes g2 (lst @ [snd (NewNode g p)]) ps = Inr (g', lst')"
    by (auto split: prod.splits option.splits)
  have "no_edges g2"
    using no_edges_AddNode [OF no_edges_NewNode [OF Cons.prems(2)], of p "snd (NewNode g p)"] a
    by simp
  from Cons.IH [OF r this] show ?case .
qed

text \<open>No graph that \<open>NewGraph\<close> returns has an edge.\<close>

lemma NewGraph_returns_no_edges:
  assumes "Factory_NewGraph aur f pkgs = Some (f', Inr g)"
  shows "EdgeOf g u v = None"
proof -
  from assms obtain g0 lst where s: "seedNodes NewGraph [] pkgs = Inr (g0, lst)"
    and l: "NewGraph_loop aur f g0 lst = Some (f', Inr g)"
    by (auto simp: Factory_NewGraph_def split: sum.splits)
  have "no_edges g0" by (rule seedNodes_no_edges [OF s no_edges_NewGraph])
  with loop_no_edges [OF l] have "no_edges g" by simp
  then show ?thesis by (rule no_edges_EdgeOf)
qed

subsection \<open>What a pass hands to the next one\<close>

lemma AddEdgeFromTo_nextID: "nextID (fst (AddEdgeFromTo g u v)) = nextID g"
  by (simp add: AddEdgeFromTo_def split: option.splits)

lemma AddNode_nextID: "nextID (fst (AddNode g u)) = nextID g"
  by (simp add: AddNode_def)

lemma connectPending_nextID: "connectPending g vs u = Inr g' \<Longrightarrow> nextID g' = nextID g"
proof (induction vs arbitrary: g)
  case Nil
  then show ?case by simp
next
  case (Cons v vs)
  then obtain g1 where 1: "AddEdgeFromTo g v u = (g1, None)"
    and 2: "connectPending g1 vs u = Inr g'"
    by (auto split: prod.splits option.splits)
  from Cons.IH [OF 2] AddEdgeFromTo_nextID [of g v u] 1 show ?case by simp
qed

lemma connectPending_reachable:
  "connectPending g vs u = Inr g' \<Longrightarrow> reachable g \<Longrightarrow> reachable g'"
proof (induction vs arbitrary: g)
  case Nil
  then show ?case by simp
next
  case (Cons v vs)
  then obtain g1 where 1: "AddEdgeFromTo g v u = (g1, None)"
    and 2: "connectPending g1 vs u = Inr g'"
    by (auto split: prod.splits option.splits)
  have "reachable g1"
    using reachable_AddEdgeFromTo [OF Cons.prems(2), of v u] 1 by simp
  from Cons.IH [OF 2 this] show ?case .
qed

lemma reachable_pair_AddEdgeFromTo:
  "AddEdgeFromTo g u v = (g', r) \<Longrightarrow> reachable g \<Longrightarrow> reachable g'"
  using reachable_AddEdgeFromTo [of g u v] by simp

lemma reachable_pair_NewNode:
  "NewNode g p = (g', u) \<Longrightarrow> reachable g \<Longrightarrow> reachable g'"
  using reachable_NewNode [of g p] by simp

lemma scanDep_shape:
  assumes "scanDep f v d s = Inr s'"
  shows "(new s' = new s \<and> nextID (graph s) \<le> nextID (graph s')) \<or>
    (\<exists>p. new s' = new s @ [\<lparr>ID = nextID (graph s) + 1, AnyPackage = p\<rparr>] \<and>
       nextID (graph s') = nextID (graph s) + 1)"
  using assms unfolding scanDep_def
  by (auto simp: NewNode_def NewNodeID_def AddEdgeFromTo_def
      split: if_splits option.splits prod.splits)

lemma scanDep_step:
  assumes "scanDep f v d s = Inr s'"
  shows "reachable (graph s) \<Longrightarrow> reachable (graph s')"
    and "fresh_new s \<Longrightarrow> fresh_new s'"
proof -
  show "reachable (graph s')" if r: "reachable (graph s)"
    using assms r unfolding scanDep_def
    by (auto split: if_splits option.splits prod.splits
        intro: reachable_pair_AddEdgeFromTo reachable_pair_NewNode)
  show "fresh_new s'" if fr: "fresh_new s"
    using scanDep_shape [OF assms]
  proof
    assume "new s' = new s \<and> nextID (graph s) \<le> nextID (graph s')"
    with fr show ?thesis by (fastforce simp: fresh_new_def list_all_iff)
  next
    assume "\<exists>p. new s' = new s @ [\<lparr>ID = nextID (graph s) + 1, AnyPackage = p\<rparr>] \<and>
      nextID (graph s') = nextID (graph s) + 1"
    with fr show ?thesis by (fastforce simp: fresh_new_def list_all_iff)
  qed
qed

lemma scanDeps_step:
  "scanDeps f v ds s = Inr s' \<Longrightarrow>
   (reachable (graph s) \<longrightarrow> reachable (graph s')) \<and> (fresh_new s \<longrightarrow> fresh_new s')"
  by (induction ds arbitrary: s) (auto split: sum.splits dest: scanDep_step)

lemma scanFrontier_step:
  "scanFrontier f lst s = Inr s' \<Longrightarrow>
   (reachable (graph s) \<longrightarrow> reachable (graph s')) \<and> (fresh_new s \<longrightarrow> fresh_new s')"
  by (induction lst arbitrary: s) (auto split: sum.splits dest: scanDeps_step)

lemma addFetchedPkg_step:
  assumes "addFetchedPkg s p = Inr s'"
  shows "reachable (graph s) \<Longrightarrow> reachable (graph s')"
    and "fresh_new s \<Longrightarrow> fresh_new s'"
proof -
  from assms obtain g2 g3 u where
    u: "u = \<lparr>ID = nextID (graph s) + 1, AnyPackage = p\<rparr>"
    and a: "AddNode (fst (NewNode (graph s) p)) u = (g2, None)"
    and c: "connectPending g2 (pending s (Name p)) u = Inr g3"
    and s': "s' = s\<lparr>graph := g3, new := new s @ [u]\<rparr>"
    by (rule addFetchedPkg_parts)
  show "reachable (graph s')" if r: "reachable (graph s)"
  proof -
    have "reachable g2"
      using reachable_AddNode [OF reachable_NewNode [OF r], of p u] a by simp
    from connectPending_reachable [OF c this] s' show ?thesis by simp
  qed
  show "fresh_new s'" if fr: "fresh_new s"
  proof -
    have "nextID g2 = nextID (graph s) + 1"
      using AddNode_nextID [of "fst (NewNode (graph s) p)" u] a
      by (simp add: NewNode_def NewNodeID_def)
    with connectPending_nextID [OF c] have "nextID g3 = nextID (graph s) + 1" by simp
    with fr s' u show ?thesis by (auto simp: fresh_new_def list_all_iff)
  qed
qed

lemma addFetchedPkgs_step:
  "addFetchedPkgs s ps = Inr s' \<Longrightarrow>
   (reachable (graph s) \<longrightarrow> reachable (graph s')) \<and> (fresh_new s \<longrightarrow> fresh_new s')"
  by (induction ps arbitrary: s) (auto split: sum.splits dest: addFetchedPkg_step)

lemma addFetched_step:
  "addFetched f s answer = Inr s' \<Longrightarrow>
   (reachable (graph s) \<longrightarrow> reachable (graph s')) \<and> (fresh_new s \<longrightarrow> fresh_new s')"
  unfolding addFetched_def
  by (auto split: prod.splits option.splits sum.splits if_splits aur_error.splits
      dest!: addFetchedPkgs_step)

text \<open>
  A pass that ends without fault on a graph the operations produced hands on such a
  graph again, and a next frontier whose nodes have different identifiers.
\<close>

lemma layer_hands_on:
  assumes "layer aur f g lst = (f', Inr (g', new'))" and "reachable g"
  shows "reachable g'" and "inj_on ID (set new')"
proof -
  from assms(1) obtain s s2 where scan: "scanFrontier f lst (initLayer g) = Inr s"
    and fetched: "addFetched f s (aur (aurCalls f) (request f g lst)) = Inr s2"
    and g': "g' = graph s2" and new': "new' = new s2"
    by (rule layer_Inr_parts)
  have "reachable (graph (initLayer g))" and "fresh_new (initLayer g)"
    using assms(2) by (simp_all add: initLayer_def fresh_new_def)
  with scanFrontier_step [OF scan] have "reachable (graph s)" and "fresh_new s" by simp_all
  with addFetched_step [OF fetched] have "reachable (graph s2)" and "fresh_new s2" by simp_all
  then show "reachable g'" and "inj_on ID (set new')"
    by (simp_all add: g' new' fresh_new_def distinct_map)
qed

subsection \<open>The loop body on a frontier that is not empty\<close>

text \<open>
  The loop of line 135 runs its body only on the empty frontier. What the body does with
  the dependencies of frontier nodes is therefore never seen in a result of \<open>NewGraph\<close>;
  the lemmas of this subsection record it for the body alone.
\<close>

text \<open>
  Lines 156 to 164 make a node and an edge for a dependency found in the sync map but
  never call \<open>AddNode\<close>: after the body has run on the graph holding \<open>a\<close>, with frontier \<open>a\<close>
  and with \<open>b\<close> in the sync map, the node for \<open>b\<close> is in the next frontier and the edge map
  has the edge from \<open>a\<close> to it, but the graph still has the one node \<open>a\<close> and knows neither
  the name nor the identifier of \<open>b\<close>.
\<close>

lemma sync_node_never_added:
  "ex_sync_layer = (ex_factory_sync\<lparr>aurCalls := 1\<rparr>, Inr (ex_sync_graph, [ex_b])) \<and>
   EdgeOf ex_sync_graph ex_a ex_b = Some \<lparr>edge_from = ex_a, edge_to = ex_b\<rparr> \<and>
   Nodes ex_sync_graph = [ex_a] \<and>
   \<not> HasName ex_sync_graph ''b'' \<and>
   NodeWithName ex_sync_graph ''b'' = None \<and>
   \<not> Has ex_sync_graph ex_b"
proof -
  have "EdgeOf ex_sync_graph ex_a ex_b = Some \<lparr>edge_from = ex_a, edge_to = ex_b\<rparr> \<and>
      Nodes ex_sync_graph = [ex_a] \<and>
      \<not> HasName ex_sync_graph ''b'' \<and>
      NodeWithName ex_sync_graph ''b'' = None \<and>
      \<not> Has ex_sync_graph ex_b"
    by (simp add: ex_defs graph_defs factory_defs numeral_2_eq_2)
  with ex_sync_layer_eval show ?thesis by blast
qed

text \<open>
  The slice of lines 185 to 188 is made with length \<open>K\<close> and then appended to: for the
  frontier \<open>a\<close>, whose one dependency \<open>b\<close> nothing local resolves, the request is the empty
  string and \<open>b\<close>.
\<close>

lemma request_starts_with_empty_names:
  "unresolved ex_factory ex_graphA ''b'' \<and>
   depFunc ex_factory (AnyPackage ex_a) = [''b''] \<and>
   request ex_factory ex_graphA [ex_a] = ['''', ''b''] \<and>
   card (set (request ex_factory ex_graphA [ex_a])) = 2"
  by (simp add: ex_defs graph_defs factory_defs numeral_2_eq_2)

text \<open>
  The placeholder of a name that the remote source reports as not found goes the way of
  a fetched package, into the graph and into the next frontier.
\<close>

lemma placeholder_in_next_frontier:
  "ex_ghost_layer = (ex_factory\<lparr>aurCalls := 1\<rparr>, Inr (ex_ghost_graph, [ex_ghost])) \<and>
   NodeWithName ex_ghost_graph ''b'' = Some ex_ghost \<and>
   Origin (AnyPackage ex_ghost) = UnknownOrigin \<and>
   ex_ghost \<in> set (snd (projr (snd ex_ghost_layer)))"
proof -
  have "NodeWithName ex_ghost_graph ''b'' = Some ex_ghost \<and>
      Origin (AnyPackage ex_ghost) = UnknownOrigin"
    by (simp add: ex_defs graph_defs factory_defs numeral_2_eq_2)
  moreover have "snd (projr (snd ex_ghost_layer)) = [ex_ghost]"
    by (simp add: ex_ghost_layer_eval)
  ultimately show ?thesis
    using ex_ghost_layer_eval by simp
qed

text \<open>
  For any frontier whose nodes have different identifiers, on a graph the operations
  produced: if the body ends without fault, a name \<open>d\<close> that is not in the graph, is not
  skipped as installed and is not in the sync map, and that the remote source reports as
  not found while forbid-unknown is disabled, has exactly one node in the graph after the
  pass, with origin \<open>Unknown\<close> and empty dependency lists, which is in the next frontier and
  has an edge in the edge map from every frontier node that lists \<open>d\<close>.
\<close>

lemma unknown_placeholder:
  assumes reach: "reachable g" and inj: "inj_on ID (set lst)"
    and nu: "\<not> noUnknown f"
    and ans: "aur (aurCalls f) (request f g lst) = (pkgs, Some (NotFoundError ns))"
    and d: "d \<in> set ns"
    and unres: "unresolved f g d"
    and lay: "layer aur f g lst = (f', Inr (g', new'))"
  shows "\<exists>u. NodeWithName g' d = Some u \<and> PkgName u = d \<and>
      Origin (AnyPackage u) = UnknownOrigin \<and>
      Depends (AnyPackage u) = [] \<and> MakeDepends (AnyPackage u) = [] \<and>
      filter (\<lambda>n. PkgName n = d) (Nodes g') = [u] \<and>
      u \<in> set new' \<and>
      (\<forall>w\<in>set lst. d \<in> set (depFunc f (AnyPackage w)) \<longrightarrow>
         EdgeOf g' w u = Some \<lparr>edge_from = w, edge_to = u\<rparr>)"
proof -
  from lay obtain s s2 where scan: "scanFrontier f lst (initLayer g) = Inr s"
    and fetched: "addFetched f s (aur (aurCalls f) (request f g lst)) = Inr s2"
    and g': "g' = graph s2" and new': "new' = new s2"
    by (rule layer_Inr_parts)
  from fetched ans nu obtain s1 where
    f1: "addFetchedPkgs s (map unknownPkg ns) = Inr s1"
    and f2: "addFetchedPkgs s1 pkgs = Inr s2"
    by (auto simp: addFetched_def split: sum.splits)
  have gi0: "graph_inv (graph (initLayer g))"
    using reachable_graph_inv [OF reach] by (simp add: initLayer_def)
  have gi: "graph_inv (graph s)"
    by (rule graph_inv_same_index [OF gi0 scanFrontier_same_index [OF scan]])
  have gi1: "graph_inv (graph s1)" by (rule addFetchedPkgs_graph_inv [OF f1 gi])
  have gi2: "graph_inv (graph s2)" by (rule addFetchedPkgs_graph_inv [OF f2 gi1])
  have sub: "set (pending s d) \<subseteq> set lst"
    using scanFrontier_pending [OF scan, of d] by (simp add: initLayer_def)
  have injp: "inj_on ID (set (pending s (Name (unknownPkg d))))"
    using inj_on_subset [OF inj sub] by (simp add: unknownPkg_def)
  have "unknownPkg d \<in> set (map unknownPkg ns)" using d by simp
  from addFetchedPkgs_makes_linked [OF f1 gi this injp]
  obtain u where u: "AnyPackage u = unknownPkg d"
    and l1: "linked s1 d u (set (pending s d))"
    by (auto simp: unknownPkg_def)
  have l2: "linked s2 d u (set (pending s d))"
    by (rule addFetchedPkgs_keeps_linked [OF f2 gi1 l1])
  then have nm: "names g' d = Some u" and un: "u \<in> set new'"
    and ed: "\<And>w. w \<in> set (pending s d) \<Longrightarrow>
      EdgeOf g' w u = Some \<lparr>edge_from = w, edge_to = u\<rparr>"
    by (auto simp: linked_def g' new')
  from gi2 nm have mem: "u \<in> set (nodes g')" and pn: "PkgName u = d"
    and dist: "distinct (map PkgName (nodes g'))"
    unfolding graph_inv_def g' by blast+
  have one: "filter (\<lambda>n. PkgName n = d) (Nodes g') = [u]"
    using filter_unique [OF dist mem] pn by (simp add: Nodes_def)
  have edges: "EdgeOf g' w u = Some \<lparr>edge_from = w, edge_to = u\<rparr>"
    if "w \<in> set lst" and "d \<in> set (depFunc f (AnyPackage w))" for w
  proof -
    have "unresolved f (graph (initLayer g)) d" using unres by (simp add: initLayer_def)
    from scanFrontier_unresolved [OF scan that this] ed show ?thesis by blast
  qed
  from nm pn u one un edges show ?thesis
    by (auto simp: NodeWithName_def unknownPkg_def)
qed

lemma unknown_placeholder_example:
  "reachable ex_graphA \<and> inj_on ID (set [ex_a]) \<and> \<not> noUnknown ex_factory \<and>
   ex_nowhere (aurCalls ex_factory) (request ex_factory ex_graphA [ex_a])
     = ([], Some (NotFoundError [''b''])) \<and>
   unresolved ex_factory ex_graphA ''b'' \<and>
   ''b'' \<in> set (depFunc ex_factory (AnyPackage ex_a)) \<and>
   layer ex_nowhere ex_factory ex_graphA [ex_a]
     = (ex_factory\<lparr>aurCalls := 1\<rparr>, Inr (ex_ghost_graph, [ex_ghost])) \<and>
   filter (\<lambda>n. PkgName n = ''b'') (Nodes ex_ghost_graph) = [ex_ghost] \<and>
   EdgeOf ex_ghost_graph ex_a ex_ghost = Some \<lparr>edge_from = ex_a, edge_to = ex_ghost\<rparr>"
proof -
  have h1: "inj_on ID (set [ex_a])" by simp
  have h2: "\<not> noUnknown ex_factory" by (simp add: ex_defs)
  have h3: "ex_nowhere (aurCalls ex_factory) (request ex_factory ex_graphA [ex_a])
      = ([], Some (NotFoundError [''b'']))"
    by (simp add: ex_defs graph_defs factory_defs)
  have h4: "''b'' \<in> set [''b'']" by simp
  have h5: "unresolved ex_factory ex_graphA ''b''"
    by (simp add: ex_defs graph_defs factory_defs)
  have h6: "layer ex_nowhere ex_factory ex_graphA [ex_a]
      = (ex_factory\<lparr>aurCalls := 1\<rparr>, Inr (ex_ghost_graph, [ex_ghost]))"
    using ex_ghost_layer_eval by (simp add: ex_ghost_layer_def)
  have h7: "''b'' \<in> set (depFunc ex_factory (AnyPackage ex_a))"
    by (simp add: ex_defs factory_defs)
  have n: "NodeWithName ex_ghost_graph ''b'' = Some ex_ghost"
    by (simp add: ex_defs graph_defs factory_defs numeral_2_eq_2)
  from unknown_placeholder [OF reachable_ex_graphA h1 h2 h3 h4 h5 h6] n h7
  have "filter (\<lambda>n. PkgName n = ''b'') (Nodes ex_ghost_graph) = [ex_ghost] \<and>
      EdgeOf ex_ghost_graph ex_a ex_ghost = Some \<lparr>edge_from = ex_a, edge_to = ex_ghost\<rparr>"
    by auto
  with reachable_ex_graphA h1 h2 h3 h5 h6 h7 show ?thesis by blast
qed

subsection \<open>The frontier expansion\<close>

text \<open>
  Claim C1: for a non-empty seed list \<open>NewGraph\<close> expands the frontier, so that the
  dependencies of every seed node are processed. The loop of line 135 runs while the
  frontier is empty: for the seed package \<open>a\<close>, which depends on \<open>b\<close>, with \<open>b\<close> available in
  a repository, \<open>NewGraph\<close> returns the graph holding only node \<open>a\<close>, without any edge,
  whatever the remote source is, and the factory has counted no lookup.
\<close>

theorem NewGraph_skips_expansion:
  "Factory_NewGraph aur ex_factory_sync [ex_pkgA] = Some (ex_factory_sync, Inr ex_graphA) \<and>
   depFunc ex_factory_sync ex_pkgA = [''b''] \<and>
   sync ex_factory_sync ''b'' = Some ex_pkgB \<and>
   Nodes ex_graphA = [ex_a] \<and>
   \<not> HasName ex_graphA ''b'' \<and>
   From ex_graphA ex_a = [] \<and>
   edges ex_graphA (ID ex_a) = Some Map.empty \<and>
   NumRequestsAUR ex_factory_sync = 0"
proof -
  have "Factory_NewGraph aur ex_factory_sync [ex_pkgA] = Some (ex_factory_sync, Inr ex_graphA)"
    by (rule NewGraph_nonempty_returns_seeds [OF _ seedNodes_ex_graphA]) simp
  moreover have "depFunc ex_factory_sync ex_pkgA = [''b''] \<and>
      sync ex_factory_sync ''b'' = Some ex_pkgB \<and>
      Nodes ex_graphA = [ex_a] \<and>
      \<not> HasName ex_graphA ''b'' \<and>
      From ex_graphA ex_a = [] \<and>
      edges ex_graphA (ID ex_a) = Some Map.empty \<and>
      NumRequestsAUR ex_factory_sync = 0"
    by (simp add: ex_defs graph_defs factory_defs)
  ultimately show ?thesis by blast
qed

subsection \<open>Termination\<close>

text \<open>
  Claim C5: \<open>NewGraph\<close> terminates for every seed list, the empty one included, and for
  the mutually dependent packages \<open>a\<close> and \<open>b\<close> it returns a graph with both nodes and both
  edges. With the loop running while the frontier is empty: on the empty seed list and
  a remote source that resolves nothing and reports no error, \<open>NewGraph\<close> never returns;
  on the seeds \<open>a\<close> and \<open>b\<close> it returns at once, with both nodes and neither edge.
\<close>

theorem NewGraph_hangs_on_empty_and_links_nothing:
  "Factory_NewGraph ex_quiet f [] = None \<and>
   Factory_NewGraph aur ex_factory [ex_pkgA, ex_pkgB] = Some (ex_factory, Inr ex_graph) \<and>
   Nodes ex_graph = [ex_a, ex_b] \<and>
   EdgeOf ex_graph ex_a ex_b = None \<and> EdgeOf ex_graph ex_b ex_a = None \<and>
   From ex_graph ex_a = [] \<and> From ex_graph ex_b = [] \<and>
   To ex_graph ex_a = [] \<and> To ex_graph ex_b = []"
proof -
  have "Factory_NewGraph ex_quiet f [] = None"
    by (simp add: Factory_NewGraph_def loop_quiet_never_returns)
  moreover
  have "Factory_NewGraph aur ex_factory [ex_pkgA, ex_pkgB] = Some (ex_factory, Inr ex_graph)"
    by (rule NewGraph_nonempty_returns_seeds [OF _ seedNodes_ex_graph]) simp
  moreover have "Nodes ex_graph = [ex_a, ex_b] \<and>
      EdgeOf ex_graph ex_a ex_b = None \<and> EdgeOf ex_graph ex_b ex_a = None \<and>
      From ex_graph ex_a = [] \<and> From ex_graph ex_b = [] \<and>
      To ex_graph ex_a = [] \<and> To ex_graph ex_b = []"
    by (simp add: ex_defs graph_defs)
  ultimately show ?thesis by blast
qed

subsection \<open>Dependencies found in a repository\<close>

text \<open>
  Claim C3: a dependency of a frontier node that is found in the sync map gets a node
  that is inserted into the graph, and the edge to it. The seed node \<open>a\<close> is the first
  frontier and its dependency \<open>b\<close> is in the sync map, with skip-installed off; the loop
  of line 135 does not run its body on a frontier that is not empty, and \<open>NewGraph\<close> returns
  the graph with the one node \<open>a\<close>: no node named \<open>b\<close>, and no edge from \<open>a\<close> to any node.
\<close>

theorem NewGraph_adds_no_sync_node:
  "Factory_NewGraph aur ex_factory_sync [ex_pkgA] = Some (ex_factory_sync, Inr ex_graphA) \<and>
   depFunc ex_factory_sync ex_pkgA = [''b''] \<and>
   \<not> skipInstalled ex_factory_sync \<and>
   sync ex_factory_sync ''b'' = Some ex_pkgB \<and>
   Nodes ex_graphA = [ex_a] \<and>
   \<not> HasName ex_graphA ''b'' \<and>
   NodeWithName ex_graphA ''b'' = None \<and>
   EdgeOf ex_graphA ex_a u = None"
proof -
  have "Factory_NewGraph aur ex_factory_sync [ex_pkgA] = Some (ex_factory_sync, Inr ex_graphA)"
    by (rule NewGraph_nonempty_returns_seeds [OF _ seedNodes_ex_graphA]) simp
  moreover have "depFunc ex_factory_sync ex_pkgA = [''b''] \<and>
      \<not> skipInstalled ex_factory_sync \<and>
      sync ex_factory_sync ''b'' = Some ex_pkgB \<and>
      Nodes ex_graphA = [ex_a] \<and>
      \<not> HasName ex_graphA ''b'' \<and>
      NodeWithName ex_graphA ''b'' = None \<and>
      EdgeOf ex_graphA ex_a u = None"
    by (simp add: ex_defs graph_defs factory_defs)
  ultimately show ?thesis by blast
qed

subsection \<open>The batched lookup\<close>



subsection \<open>Placeholders for unknown packages\<close>

text \<open>
  Claim C7: a dependency name found neither in the graph, nor locally, nor in the sync
  map, nor remotely gets, with forbid-unknown disabled, exactly one node of origin
  \<open>Unknown\<close>, with an edge from every frontier node that lists it. The seed node \<open>a\<close> depends
  on \<open>b\<close>, which is nowhere and which the remote source would report as not found; the
  loop of line 135 does not run its body, and \<open>NewGraph\<close> returns the graph with the one node
  \<open>a\<close>: no node named \<open>b\<close>, no edge from \<open>a\<close>, and no lookup made.
\<close>

theorem NewGraph_adds_no_placeholder:
  "Factory_NewGraph ex_nowhere ex_factory [ex_pkgA] = Some (ex_factory, Inr ex_graphA) \<and>
   depFunc ex_factory ex_pkgA = [''b''] \<and>
   local ex_factory ''b'' = None \<and>
   sync ex_factory ''b'' = None \<and>
   ex_nowhere n [''b''] = ([], Some (NotFoundError [''b''])) \<and>
   \<not> noUnknown ex_factory \<and>
   Nodes ex_graphA = [ex_a] \<and>
   \<not> HasName ex_graphA ''b'' \<and>
   filter (\<lambda>v. PkgName v = ''b'') (Nodes ex_graphA) = [] \<and>
   EdgeOf ex_graphA ex_a u = None \<and>
   NumRequestsAUR ex_factory = 0"
proof -
  have "Factory_NewGraph ex_nowhere ex_factory [ex_pkgA] = Some (ex_factory, Inr ex_graphA)"
    by (rule NewGraph_nonempty_returns_seeds [OF _ seedNodes_ex_graphA]) simp
  moreover have "depFunc ex_factory ex_pkgA = [''b''] \<and>
      local ex_factory ''b'' = None \<and>
      sync ex_factory ''b'' = None \<and>
      ex_nowhere n [''b''] = ([], Some (NotFoundError [''b''])) \<and>
      \<not> noUnknown ex_factory \<and>
      Nodes ex_graphA = [ex_a] \<and>
      \<not> HasName ex_graphA ''b'' \<and>
      filter (\<lambda>v. PkgName v = ''b'') (Nodes ex_graphA) = [] \<and>
      EdgeOf ex_graphA ex_a u = None \<and>
      NumRequestsAUR ex_factory = 0"
    by (simp add: ex_defs graph_defs factory_defs)
  ultimately show ?thesis by blast
qed

subsection \<open>Errors of the remote source\<close>

text \<open>
  Claim C8: when the lookup of a layer answers with an error that is not a "not found"
  error, or with a "not found" error while forbid-unknown is enabled, the layer ends
  with that error and no graph, and so does \<open>NewGraph\<close>: the loop returns the error in the
  pass in which the lookup was made.
\<close>

theorem remote_error_aborts:
  assumes "scanFrontier f lst (initLayer g) = Inr s"
    and "aur (aurCalls f) (fromAUR (unavailable s)) = (pkgs, Some e)"
    and "noUnknown f \<or> \<not> IsNotFound e"
  shows "layer aur f g lst = (f\<lparr>aurCalls := aurCalls f + 1\<rparr>, Inl (RemoteError e)) \<and>
    (lst = [] \<longrightarrow>
       NewGraph_loop aur f g lst = Some (f\<lparr>aurCalls := aurCalls f + 1\<rparr>, Inl (RemoteError e)))"
proof -
  have a: "addFetched f s (pkgs, Some e) = Inl (RemoteError e)"
    using assms(3) by (cases e) (auto simp: addFetched_def)
  have l: "layer aur f g lst = (f\<lparr>aurCalls := aurCalls f + 1\<rparr>, Inl (RemoteError e))"
    using assms(1,2) a by (simp add: layer_def)
  have "NewGraph_loop aur f g lst = Some (f\<lparr>aurCalls := aurCalls f + 1\<rparr>, Inl (RemoteError e))"
    if "lst = []"
  proof -
    from l that
    have "layer aur f g [] = (f\<lparr>aurCalls := aurCalls f + 1\<rparr>, Inl (RemoteError e))"
      by simp
    then show ?thesis
      unfolding that by (subst NewGraph_loop.simps) simp
  qed
  with l show ?thesis by blast
qed

theorem remote_error_aborts_witness:
  "Factory_NewGraph ex_offline ex_factory []
     = Some (ex_factory\<lparr>aurCalls := 1\<rparr>, Inl (RemoteError (OtherError ''connection refused''))) \<and>
   noUnknown (SetNoUnknown ex_factory True) \<and>
   layer ex_nowhere (SetNoUnknown ex_factory True) ex_graphA [ex_a]
     = (SetNoUnknown ex_factory True\<lparr>aurCalls := 1\<rparr>, Inl (RemoteError (NotFoundError [''b''])))"
proof -
  have a1: "scanFrontier ex_factory [] (initLayer NewGraph) = Inr (initLayer NewGraph)"
    by simp
  have a2: "ex_offline (aurCalls ex_factory) (fromAUR (unavailable (initLayer NewGraph)))
      = ([], Some (OtherError ''connection refused''))"
    by (simp add: ex_offline_def)
  have a3: "noUnknown ex_factory \<or> \<not> IsNotFound (OtherError ''connection refused'')"
    by simp
  have "NewGraph_loop ex_offline ex_factory NewGraph []
      = Some (ex_factory\<lparr>aurCalls := 1\<rparr>, Inl (RemoteError (OtherError ''connection refused'')))"
    using remote_error_aborts [where aur = ex_offline and f = ex_factory, OF a1 a2 a3]
    by (simp add: ex_defs)
  then have 1: "Factory_NewGraph ex_offline ex_factory []
      = Some (ex_factory\<lparr>aurCalls := 1\<rparr>, Inl (RemoteError (OtherError ''connection refused'')))"
    by (simp add: Factory_NewGraph_def)
  let ?f = "SetNoUnknown ex_factory True"
  let ?s = "projr (scanFrontier ?f [ex_a] (initLayer ex_graphA))"
  have b1: "scanFrontier ?f [ex_a] (initLayer ex_graphA) = Inr ?s"
    by (simp add: ex_defs graph_defs factory_defs)
  have b2: "ex_nowhere (aurCalls ?f) (fromAUR (unavailable ?s))
      = ([], Some (NotFoundError [''b'']))"
    by (simp add: ex_defs graph_defs factory_defs)
  have b3: "noUnknown ?f \<or> \<not> IsNotFound (NotFoundError [''b''])"
    by (simp add: SetNoUnknown_def)
  have 2: "layer ex_nowhere ?f ex_graphA [ex_a]
      = (?f\<lparr>aurCalls := 1\<rparr>, Inl (RemoteError (NotFoundError [''b''])))"
    using remote_error_aborts [where aur = ex_nowhere and f = "?f", OF b1 b2 b3]
    by (simp add: ex_defs SetNoUnknown_def)
  from 1 2 b3 show ?thesis by simp
qed

end
